theory Spec2Isabelle
  imports Complex_Main "HOL-Library.Word" "HOL-Library.Sublist" "HOL-Library.Char_ord"
begin

section \<open>Library functions used by the benchmark\<close>

text \<open>
  Go strings are byte sequences; they are modelled as \<open>string\<close> (a list of 8-bit
  characters). The functions of this section belong to the Go standard library; each is
  written out for the arguments with which the benchmark calls it.
\<close>

subsection \<open>strings.HasPrefix, strings.TrimPrefix, strings.Split\<close>

definition HasPrefix :: "string \<Rightarrow> string \<Rightarrow> bool" where
  "HasPrefix s p = prefix p s"

definition TrimPrefix :: "string \<Rightarrow> string \<Rightarrow> string" where
  "TrimPrefix s p = (if HasPrefix s p then drop (length p) s else s)"

text \<open>
  \<open>strings.Split(s, sep)\<close> for a separator of one byte (the benchmark only splits on
  \<open>":"\<close>): the pieces between the occurrences of the separator, one more than there are
  occurrences; the empty string gives one empty piece.
\<close>

fun Split :: "string \<Rightarrow> char \<Rightarrow> string list" where
  "Split [] sep = [[]]"
| "Split (c # cs) sep =
     (if c = sep then [] # Split cs sep
      else (case Split cs sep of
              [] \<Rightarrow> [[c]]
            | p # ps \<Rightarrow> (c # p) # ps))"

subsection \<open>encoding/hex.DecodeString\<close>

datatype hex_error = InvalidByteError char | ErrLength

text \<open>The table \<open>reverseHexTable\<close>: the value of a hexadecimal digit, of either case.\<close>

definition fromHexChar :: "char \<Rightarrow> nat option" where
  "fromHexChar c =
     (let v = (of_char c :: nat) in
      if 48 \<le> v \<and> v \<le> 57 then Some (v - 48)
      else if 97 \<le> v \<and> v \<le> 102 then Some (v - 97 + 10)
      else if 65 \<le> v \<and> v \<le> 70 then Some (v - 65 + 10)
      else None)"

text \<open>
  \<open>DecodeString\<close> returns the bytes decoded before the first error together with the
  error, if any: an invalid byte is reported where it is met, an odd length at the end.
\<close>

fun DecodeString :: "string \<Rightarrow> 8 word list \<times> hex_error option" where
  "DecodeString [] = ([], None)"
| "DecodeString [p] =
     (case fromHexChar p of
        None \<Rightarrow> ([], Some (InvalidByteError p))
      | Some a \<Rightarrow> ([], Some ErrLength))"
| "DecodeString (p # q # rest) =
     (case fromHexChar p of
        None \<Rightarrow> ([], Some (InvalidByteError p))
      | Some a \<Rightarrow>
         (case fromHexChar q of
            None \<Rightarrow> ([], Some (InvalidByteError q))
          | Some b \<Rightarrow>
             (case DecodeString rest of
                (bs, e) \<Rightarrow> (of_nat (a * 16 + b) # bs, e))))"

subsection \<open>strconv.ParseUint in base 10\<close>

datatype num_error = ErrSyntax | ErrRange

text \<open>
  \<open>strconv.ParseUint(s, 10, bitSize)\<close>: the empty string and every byte that is not a
  decimal digit are syntax errors (no sign, no underscore in base 10); a value above
  \<open>2 ^ bitSize - 1\<close> is a range error, reported with that maximum as the value.
\<close>

fun ParseUint_loop :: "nat \<Rightarrow> nat \<Rightarrow> string \<Rightarrow> num_error \<times> nat + nat" where
  "ParseUint_loop maxVal n [] = Inr n"
| "ParseUint_loop maxVal n (c # cs) =
     (let v = (of_char c :: nat) in
      if 48 \<le> v \<and> v \<le> 57 then
        (let n1 = n * 10 + (v - 48) in
         if n1 > maxVal then Inl (ErrRange, maxVal)
         else ParseUint_loop maxVal n1 cs)
      else Inl (ErrSyntax, 0))"

definition ParseUint10 :: "string \<Rightarrow> nat \<Rightarrow> num_error \<times> nat + nat" where
  "ParseUint10 s bitSize =
     (if s = [] then Inl (ErrSyntax, 0) else ParseUint_loop (2 ^ bitSize - 1) 0 s)"

subsection \<open>net.SplitHostPort and net.JoinHostPort\<close>

datatype addr_error =
    MissingPort | TooManyColons | MissingBracket | UnexpectedOpen | UnexpectedClose

text \<open>Index of the first and of the last occurrence of a byte, as \<open>IndexByte\<close> and
  \<open>LastIndexByte\<close> give them (\<open>None\<close> for \<open>-1\<close>).\<close>

fun IndexByte :: "string \<Rightarrow> char \<Rightarrow> nat option" where
  "IndexByte [] c = None"
| "IndexByte (x # xs) c =
     (if x = c then Some 0 else map_option Suc (IndexByte xs c))"

fun LastIndexByte :: "string \<Rightarrow> char \<Rightarrow> nat option" where
  "LastIndexByte [] c = None"
| "LastIndexByte (x # xs) c =
     (case LastIndexByte xs c of
        Some i \<Rightarrow> Some (Suc i)
      | None \<Rightarrow> (if x = c then Some 0 else None))"

definition SplitHostPort :: "string \<Rightarrow> addr_error + string \<times> string" where
  "SplitHostPort hostport =
     (case LastIndexByte hostport CHR '':'' of
        None \<Rightarrow> Inl MissingPort
      | Some i \<Rightarrow>
         (if hd hostport = CHR ''[''
          then
            (case IndexByte hostport CHR '']'' of
               None \<Rightarrow> Inl MissingBracket
             | Some end \<Rightarrow>
                (if end + 1 = length hostport then Inl MissingPort
                 else if end + 1 = i then
                   (if IndexByte (drop 1 hostport) CHR ''['' \<noteq> None then Inl UnexpectedOpen
                    else if IndexByte (drop (end + 1) hostport) CHR '']'' \<noteq> None
                      then Inl UnexpectedClose
                    else Inr (take (end - 1) (drop 1 hostport), drop (i + 1) hostport))
                 else if hostport ! (end + 1) = CHR '':'' then Inl TooManyColons
                 else Inl MissingPort))
          else
            (if IndexByte (take i hostport) CHR '':'' \<noteq> None then Inl TooManyColons
             else if IndexByte hostport CHR ''['' \<noteq> None then Inl UnexpectedOpen
             else if IndexByte hostport CHR '']'' \<noteq> None then Inl UnexpectedClose
             else Inr (take i hostport, drop (i + 1) hostport))))"

text \<open>
  \<open>JoinHostPort\<close> takes a host that contains a colon for a literal IPv6 address and
  puts it in square brackets.
\<close>

definition JoinHostPort :: "string \<Rightarrow> string \<Rightarrow> string" where
  "JoinHostPort host port =
     (if IndexByte host CHR '':'' \<noteq> None
      then ''['' @ host @ '']:'' @ port
      else host @ '':'' @ port)"

section \<open>The benchmark configuration\<close>

text \<open>
  The fields of \<open>Benchmark\<close> that \<open>prepare\<close>, the query builder and the worker loop
  read or write. \<open>Count\<close>, \<open>Duration\<close> and the other 64-bit quantities are only
  compared and copied by the code below, so they are integers; \<open>Edns0\<close> is a
  \<open>uint16\<close>. \<open>Probability\<close> is a \<open>float64\<close>: comparison of finite floats is
  comparison of the reals they denote, which is how it is modelled (a NaN is outside
  the model).
\<close>

record Benchmark =
  Server :: string
  Types :: "string list"
  Count :: int
  Duration :: int
  Concurrency :: "32 word"
  Rate :: int
  RateLimitWorker :: int
  QperConn :: int
  Recurse :: bool
  Probability :: real
  EdnsOpt :: string
  DNSSEC :: bool
  Edns0 :: "16 word"
  TCP :: bool
  DOT :: bool
  RequestTimeout :: int
  HistMax :: int
  Queries :: "string list"
  useDoH :: bool
  useQuic :: bool

datatype error =
    ErrServerEmpty
  | ErrURLParse
  | ErrNumberAndDuration
  | ErrEdns0Range
  | ErrEdnsOptFormat
  | ErrEdnsOptData
  | ErrEdnsOptCode
  | ErrDownload
  | ErrDownloadStatus

text \<open>The one field of a parsed URL that \<open>prepare\<close> looks at.\<close>

record URL =
  Path :: string

definition isHTTPUrl :: "string \<Rightarrow> bool \<times> string" where
  "isHTTPUrl s =
     (if HasPrefix s ''http://'' then (True, ''http'')
      else if HasPrefix s ''https://'' then (True, ''https'')
      else (False, ''''))"

definition addPortIfMissing :: "Benchmark \<Rightarrow> Benchmark" where
  "addPortIfMissing b =
     (if useDoH b then b
      else if isl (SplitHostPort (Server b)) then
        (if DOT b then b\<lparr>Server := JoinHostPort (Server b) ''853''\<rparr>
         else if useQuic b then b\<lparr>Server := JoinHostPort (Server b) ''853''\<rparr>
         else b\<lparr>Server := JoinHostPort (Server b) ''53''\<rparr>)
      else b)"

text \<open>
  \<open>prepare\<close> in the order of the source. \<open>url.Parse\<close> is a parameter: it gives the
  parsed URL or fails. The three stages are the mode detection with the default path
  (lines 184-198), the termination bound with the histogram and EDNS0 range checks
  (lines 202-216) and the check of the EDNS option (lines 218-231).
\<close>

definition prepare_server :: "(string \<Rightarrow> URL option) \<Rightarrow> Benchmark \<Rightarrow> error + Benchmark" where
  "prepare_server url_Parse b =
     (let b1 = b\<lparr>useDoH := fst (isHTTPUrl (Server b))\<rparr>;
          b2 = b1\<lparr>useQuic := HasPrefix (Server b1) ''quic://''\<rparr>;
          b3 = (if useQuic b2 then b2\<lparr>Server := TrimPrefix (Server b2) ''quic://''\<rparr> else b2)
      in if useDoH b3 then
           (case url_Parse (Server b3) of
              None \<Rightarrow> Inl ErrURLParse
            | Some parsedURL \<Rightarrow>
               Inr (if length (Path parsedURL) = 0
                    then b3\<lparr>Server := Server b3 @ ''/dns-query''\<rparr> else b3))
         else Inr b3)"

definition prepare_bounds :: "Benchmark \<Rightarrow> error + Benchmark" where
  "prepare_bounds b =
     (let b1 = (if Count b = 0 \<and> Duration b = 0 then b\<lparr>Count := 1\<rparr> else b)
      in if Duration b1 > 0 \<and> Count b1 > 0 then Inl ErrNumberAndDuration
         else
           (let b2 = (if HistMax b1 = 0 then b1\<lparr>HistMax := RequestTimeout b1\<rparr> else b1)
            in if Edns0 b2 \<noteq> 0 \<and> (Edns0 b2 < 512 \<or> Edns0 b2 > 4096)
               then Inl ErrEdns0Range
               else Inr b2))"

definition prepare_ednsopt :: "Benchmark \<Rightarrow> error + Benchmark" where
  "prepare_ednsopt b =
     (if length (EdnsOpt b) \<noteq> 0 then
        (let split = Split (EdnsOpt b) CHR '':'' in
         if length split \<noteq> 2 then Inl ErrEdnsOptFormat
         else if snd (DecodeString (split ! 1)) \<noteq> None then Inl ErrEdnsOptData
         else if isl (ParseUint10 (split ! 0) 16) then Inl ErrEdnsOptCode
         else Inr b)
      else Inr b)"

definition prepare :: "(string \<Rightarrow> URL option) \<Rightarrow> Benchmark \<Rightarrow> error + Benchmark" where
  "prepare url_Parse b =
     (if length (Server b) = 0 then Inl ErrServerEmpty
      else
        (case prepare_server url_Parse b of
           Inl e \<Rightarrow> Inl e
         | Inr b1 \<Rightarrow>
            (case prepare_bounds (addPortIfMissing b1) of
               Inl e \<Rightarrow> Inl e
             | Inr b2 \<Rightarrow> prepare_ednsopt b2)))"

text \<open>
  \<open>prepareQuestions\<close>: a query that is an HTTP URL is downloaded and read line by line,
  every other query is one domain. The HTTP client (\<open>Get\<close>: the status code and the
  scanned lines, or a failure) and \<open>dns.Fqdn\<close> are parameters.
\<close>

fun prepareQuestions_loop ::
  "(string \<Rightarrow> (int \<times> string list) option) \<Rightarrow> (string \<Rightarrow> string) \<Rightarrow>
   string list \<Rightarrow> string list \<Rightarrow> error + string list" where
  "prepareQuestions_loop Get Fqdn [] questions = Inr questions"
| "prepareQuestions_loop Get Fqdn (q # rest) questions =
     (if fst (isHTTPUrl q) then
        (case Get q of
           None \<Rightarrow> Inl ErrDownload
         | Some (status, lines) \<Rightarrow>
            (if status < 200 \<or> status > 299 then Inl ErrDownloadStatus
             else prepareQuestions_loop Get Fqdn rest (questions @ map Fqdn lines)))
      else prepareQuestions_loop Get Fqdn rest (questions @ [Fqdn q]))"

definition prepareQuestions ::
  "(string \<Rightarrow> (int \<times> string list) option) \<Rightarrow> (string \<Rightarrow> string) \<Rightarrow>
   Benchmark \<Rightarrow> error + string list" where
  "prepareQuestions Get Fqdn b = prepareQuestions_loop Get Fqdn (Queries b) []"

section \<open>DNS messages and the query builder\<close>

text \<open>
  The parts of a \<open>dns.Msg\<close> that the benchmark sets. The additional section holds
  resource records, of which only OPT records are told apart. \<open>SetEdns0\<close>,
  \<open>IsEdns0\<close> and \<open>SetDo\<close> are the DNS library's: \<open>SetEdns0\<close> appends a fresh OPT
  record with the given UDP size, \<open>IsEdns0\<close> looks for an OPT record from the end of
  the additional section and returns a pointer to it, here its index.
\<close>

record EDNS0_LOCAL =
  Code :: "16 word"
  Data :: "8 word list"

record OPT =
  UDPSize :: "16 word"
  Do :: bool
  Option :: "EDNS0_LOCAL list"

datatype RR = OPT_RR OPT | Other_RR

record dns_Question =
  Name :: string
  Qtype :: "16 word"
  Qclass :: "16 word"

record Msg =
  MsgId :: "16 word"
  RecursionDesired :: bool
  Question :: "dns_Question list"
  Extra :: "RR list"

definition ClassINET :: "16 word" where
  "ClassINET = 1"

definition defaultEdns0BufferSize :: "16 word" where
  "defaultEdns0BufferSize = 1232"

definition SetEdns0 :: "Msg \<Rightarrow> 16 word \<Rightarrow> bool \<Rightarrow> Msg" where
  "SetEdns0 m udpsize do =
     m\<lparr>Extra := Extra m @ [OPT_RR \<lparr>UDPSize = udpsize, Do = do, Option = []\<rparr>]\<rparr>"

fun IsEdns0_from :: "RR list \<Rightarrow> nat \<Rightarrow> nat option" where
  "IsEdns0_from rrs 0 = None"
| "IsEdns0_from rrs (Suc i) =
     (case rrs ! i of OPT_RR opt \<Rightarrow> Some i | Other_RR \<Rightarrow> IsEdns0_from rrs i)"

definition IsEdns0 :: "Msg \<Rightarrow> nat option" where
  "IsEdns0 m = IsEdns0_from (Extra m) (length (Extra m))"

text \<open>Writing through the pointer that \<open>IsEdns0\<close> returned.\<close>

definition update_opt :: "Msg \<Rightarrow> nat \<Rightarrow> (OPT \<Rightarrow> OPT) \<Rightarrow> Msg" where
  "update_opt m i f =
     m\<lparr>Extra := (Extra m)[i := (case Extra m ! i of OPT_RR opt \<Rightarrow> OPT_RR (f opt)
                                 | Other_RR \<Rightarrow> Other_RR)]\<rparr>"

text \<open>The OPT record that \<open>IsEdns0\<close> finds, read.\<close>

definition the_opt :: "Msg \<Rightarrow> OPT option" where
  "the_opt m =
     (case IsEdns0 m of
        None \<Rightarrow> None
      | Some i \<Rightarrow> (case Extra m ! i of OPT_RR opt \<Rightarrow> Some opt | Other_RR \<Rightarrow> None))"

datatype panic = IndexOutOfRange | NilDereference

text \<open>
  \<open>addEdnsOpt\<close> discards the errors of the two parsers and keeps the values they return
  with them; \<open>s[1]\<close> panics when the split has fewer than two parts.
\<close>

definition addEdnsOpt :: "Msg \<Rightarrow> string \<Rightarrow> panic + Msg" where
  "addEdnsOpt m ednsOpt =
     (let (m1, opt) =
            (case IsEdns0 m of
               None \<Rightarrow> (let m' = SetEdns0 m defaultEdns0BufferSize False in (m', IsEdns0 m'))
             | Some i \<Rightarrow> (m, Some i));
          s = Split ednsOpt CHR '':''
      in if length s < 2 then Inl IndexOutOfRange
         else
           (let data = fst (DecodeString (s ! 1));
                code = (case ParseUint10 (s ! 0) 16 of Inl (e, v) \<Rightarrow> v | Inr v \<Rightarrow> v)
            in case opt of
                 None \<Rightarrow> Inl NilDereference
               | Some i \<Rightarrow>
                  Inr (update_opt m1 i
                        (\<lambda>r. r\<lparr>Option := Option r @ [\<lparr>Code = of_nat code, Data = data\<rparr>]\<rparr>))))"

text \<open>The DNSSEC branch of the worker loop (lines 445-452).\<close>

definition setDNSSEC :: "Msg \<Rightarrow> panic + Msg" where
  "setDNSSEC m =
     (let (m1, edns0) =
            (case IsEdns0 m of
               None \<Rightarrow> (let m' = SetEdns0 m defaultEdns0BufferSize False in (m', IsEdns0 m'))
             | Some i \<Rightarrow> (m, Some i))
      in case edns0 of
           None \<Rightarrow> Inl NilDereference
         | Some i \<Rightarrow> Inr (update_opt m1 i (\<lambda>r. r\<lparr>Do := True\<rparr>)))"

text \<open>
  The message of one query (lines 426-452): \<open>q\<close> and \<open>qt\<close> are the question and the
  query type, \<open>r\<close> is what \<open>rando.Uint32()\<close> returns when it is called.
\<close>

definition build_msg :: "Benchmark \<Rightarrow> string \<Rightarrow> 16 word \<Rightarrow> 32 word \<Rightarrow> panic + Msg" where
  "build_msg b q qt r =
     (let m0 = \<lparr>MsgId = 0, RecursionDesired = Recurse b,
                Question = [\<lparr>Name = q, Qtype = qt, Qclass = ClassINET\<rparr>], Extra = []\<rparr>;
          m1 = (if useQuic b then m0\<lparr>MsgId := 0\<rparr> else m0\<lparr>MsgId := ucast r\<rparr>);
          m2 = (if Edns0 b > 0 then SetEdns0 m1 (Edns0 b) False else m1)
      in case (if length (EdnsOpt b) > 0 then addEdnsOpt m2 (EdnsOpt b) else Inr m2) of
           Inl p \<Rightarrow> Inl p
         | Inr m3 \<Rightarrow> (if DNSSEC b then setDNSSEC m3 else Inr m3))"

section \<open>Errors and the reporter's error strings\<close>

text \<open>
  A Go error value is seen through two things. \<open>errors.As\<close> walks the chain of wrapped
  errors from the outermost one inwards and stops at the first of the wanted type, so
  the chain is the list of the errors in that order, each a \<open>*net.DNSError\<close> (with its
  fields \<open>Err\<close> and \<open>Name\<close>), a \<open>*net.OpError\<close> (with \<open>Op\<close>, \<open>Net\<close> and the
  string of \<open>Addr\<close> when \<open>Addr\<close> is not nil) or of another type. \<open>Error_msg\<close> is
  what the method \<open>Error()\<close> of the outermost error returns.
\<close>

datatype err_node =
    DNSError string string
  | OpError string string "string option"
  | OtherError

record go_error =
  chain :: "err_node list"
  Error_msg :: string

record ErrorDatapoint =
  Start :: int
  Err :: go_error

fun As_DNSError :: "err_node list \<Rightarrow> (string \<times> string) option" where
  "As_DNSError [] = None"
| "As_DNSError (DNSError e n # rest) = Some (e, n)"
| "As_DNSError (other # rest) = As_DNSError rest"

fun As_OpError :: "err_node list \<Rightarrow> (string \<times> string \<times> string option) option" where
  "As_OpError [] = None"
| "As_OpError (OpError op net addr # rest) = Some (op, net, addr)"
| "As_OpError (other # rest) = As_OpError rest"

definition errString :: "ErrorDatapoint \<Rightarrow> string" where
  "errString err =
     (case As_DNSError (chain (Err err)) of
        Some (e, n) \<Rightarrow> e @ '' '' @ n
      | None \<Rightarrow>
         (case As_OpError (chain (Err err)) of
            Some (op, net, addr) \<Rightarrow>
              (let errorString = op @ '' '' @ net in
               case addr of
                 Some a \<Rightarrow> errorString @ '' '' @ a
               | None \<Rightarrow> errorString)
          | None \<Rightarrow> Error_msg (Err err)))"

section \<open>Counters, the recorder and the reducer\<close>

text \<open>The counters are 64-bit integers: their sums wrap around.\<close>

record Counters =
  Total :: "64 word"
  IOError :: "64 word"
  Success :: "64 word"
  Negative :: "64 word"
  Error :: "64 word"
  IDmismatch :: "64 word"
  Truncated :: "64 word"

text \<open>Of a worker's statistics, the pointer to its counters (it may be nil).\<close>

record ResultStats =
  Counters :: "Counters option"

definition no_counters :: Counters where
  "no_counters = \<lparr>Total = 0, IOError = 0, Success = 0, Negative = 0, Error = 0,
                   IDmismatch = 0, Truncated = 0\<rparr>"

text \<open>The merge of the counters in \<open>PrintReport\<close> (lines 50, 53 and 82-92).\<close>

definition add_counters :: "Counters \<Rightarrow> Counters \<Rightarrow> Counters" where
  "add_counters totalCounters c =
     \<lparr>Total = Total totalCounters + Total c,
      IOError = IOError totalCounters + IOError c,
      Success = Success totalCounters + Success c,
      Negative = Negative totalCounters + Negative c,
      Error = Error totalCounters + Error c,
      IDmismatch = IDmismatch totalCounters + IDmismatch c,
      Truncated = Truncated totalCounters + Truncated c\<rparr>"

fun merge_counters :: "ResultStats list \<Rightarrow> Counters \<Rightarrow> Counters" where
  "merge_counters [] totalCounters = totalCounters"
| "merge_counters (s # stats) totalCounters =
     merge_counters stats
       (case Counters s of
          None \<Rightarrow> totalCounters
        | Some c \<Rightarrow> add_counters totalCounters c)"

definition totalCounters :: "ResultStats list \<Rightarrow> Counters" where
  "totalCounters stats = merge_counters stats no_counters"

text \<open>The counters of the recorders that have some, in the order of the workers.\<close>

fun worker_counters :: "ResultStats list \<Rightarrow> Counters list" where
  "worker_counters [] = []"
| "worker_counters (s # stats) =
     (case Counters s of
        None \<Rightarrow> worker_counters stats
      | Some c \<Rightarrow> c # worker_counters stats)"

record Resp =
  Rcode :: int
  RespTruncated :: bool
  RespId :: "16 word"

text \<open>
  Modelled from the spec: the recorder's \<open>record\<close> operation is not among the source
  files. Of its effects the counters are modelled, as section 4.5 of the specification
  gives them: \<open>Total\<close> grows with every attempt; a failed attempt grows \<open>IOError\<close> and
  nothing else; otherwise the response code selects \<open>Success\<close> (0), \<open>Negative\<close> (3) or
  \<open>Error\<close>, a truncated response grows \<open>Truncated\<close>, and a response whose id differs
  from the request's grows \<open>IDmismatch\<close> when the transport carries ids.
\<close>

definition record_result :: "bool \<Rightarrow> Msg \<Rightarrow> go_error + Resp \<Rightarrow> Counters \<Rightarrow> Counters" where
  "record_result carries_id req res c =
     (let c1 = c\<lparr>Total := Total c + 1\<rparr> in
      case res of
        Inl err \<Rightarrow> c1\<lparr>IOError := IOError c1 + 1\<rparr>
      | Inr resp \<Rightarrow>
         (let c2 = (if Rcode resp = 0 then c1\<lparr>Success := Success c1 + 1\<rparr>
                    else if Rcode resp = 3 then c1\<lparr>Negative := Negative c1 + 1\<rparr>
                    else c1\<lparr>Error := Error c1 + 1\<rparr>);
              c3 = (if RespTruncated resp then c2\<lparr>Truncated := Truncated c2 + 1\<rparr> else c2)
          in if carries_id \<and> RespId resp \<noteq> MsgId req
             then c3\<lparr>IDmismatch := IDmismatch c3 + 1\<rparr> else c3))"

section \<open>The worker\<close>

text \<open>
  What the surroundings decide in one pass through the body of the innermost loop:
  whether the context is already cancelled, the two random draws, whether a wait on a
  rate limiter is cut short by cancellation, and the results of dialling and of the
  exchange. A worker reads a sequence of these, one per pass.
\<close>

record step_env =
  ctx_err :: bool
  Float64 :: real
  limit_err :: bool
  workerLimit_err :: bool
  Uint32 :: "32 word"
  dial_result :: "go_error option"
  exchange_result :: "go_error + Resp"

text \<open>
  The state of a worker: \<open>co\<close> says whether the connection variable is not nil,
  \<open>ctr\<close> are the counters of its recorder, \<open>tick\<close> counts the passes. \<open>dials\<close>
  counts the calls of \<open>DialContext\<close> and \<open>sent\<close> lists the messages handed to the
  query function, in order; the program does not hold these two, they observe it.
\<close>

record worker =
  co :: bool
  ctr :: Counters
  tick :: nat
  dials :: nat
  sent :: "Msg list"

definition new_worker :: worker where
  "new_worker = \<lparr>co = False, ctr = no_counters, tick = 0, dials = 0, sent = []\<rparr>"

datatype flow = Continue | Return | Panic panic

text \<open>
  The query function of a plain-DNS or DoT worker (lines 383-402). The loop counter
  \<open>i\<close> is never negative, so Go's remainder is \<open>mod\<close>.
\<close>

definition plain_query :: "Benchmark \<Rightarrow> step_env \<Rightarrow> int \<Rightarrow> worker \<Rightarrow> (go_error + Resp) \<times> worker" where
  "plain_query b e i w =
     (let w1 = (if co w \<and> QperConn b > 0 \<and> i mod QperConn b = 0 then w\<lparr>co := False\<rparr> else w)
      in case (if \<not> co w1 then
                 (let w2 = w1\<lparr>dials := Suc (dials w1)\<rparr> in
                  case dial_result e of
                    Some err \<Rightarrow> Inl (err, w2)
                  | None \<Rightarrow> Inr (w2\<lparr>co := True\<rparr>))
               else Inr w1) of
           Inl (err, w3) \<Rightarrow> (Inl err, w3)
         | Inr w3 \<Rightarrow>
            (case exchange_result e of
               Inl err \<Rightarrow> (Inl err, w3\<lparr>co := False\<rparr>)
             | Inr r \<Rightarrow> (Inr r, w3)))"

text \<open>DoH and DoQ workers share one client, which keeps its own connections.\<close>

definition query :: "Benchmark \<Rightarrow> step_env \<Rightarrow> int \<Rightarrow> worker \<Rightarrow> (go_error + Resp) \<times> worker" where
  "query b e i w =
     (if useDoH b \<or> useQuic b then (exchange_result e, w) else plain_query b e i w)"

text \<open>The body of the innermost loop (lines 408-463).\<close>

definition iteration ::
  "Benchmark \<Rightarrow> (nat \<Rightarrow> step_env) \<Rightarrow> int \<Rightarrow> string \<Rightarrow> 16 word \<Rightarrow> worker \<Rightarrow> flow \<times> worker" where
  "iteration b env i q qt w0 =
     (let e = env (tick w0);
          w = w0\<lparr>tick := Suc (tick w0)\<rparr>
      in if ctx_err e then (Return, w)
         else if Float64 e > Probability b then (Continue, w)
         else if Rate b > 0 \<and> limit_err e then (Return, w)
         else if RateLimitWorker b > 0 \<and> workerLimit_err e then (Return, w)
         else
           (case build_msg b q qt (Uint32 e) of
              Inl p \<Rightarrow> (Panic p, w)
            | Inr m \<Rightarrow>
               (case query b e i w of
                  (res, w') \<Rightarrow>
                    (Continue,
                     w'\<lparr>sent := sent w' @ [m],
                        ctr := record_result (\<not> useQuic b) m res (ctr w')\<rparr>))))"

fun types_loop ::
  "Benchmark \<Rightarrow> (nat \<Rightarrow> step_env) \<Rightarrow> int \<Rightarrow> string \<Rightarrow> 16 word list \<Rightarrow> worker \<Rightarrow> flow \<times> worker" where
  "types_loop b env i q [] w = (Continue, w)"
| "types_loop b env i q (qt # qTypes) w =
     (case iteration b env i q qt w of
        (Continue, w') \<Rightarrow> types_loop b env i q qTypes w'
      | (f, w') \<Rightarrow> (f, w'))"

fun questions_loop ::
  "Benchmark \<Rightarrow> (nat \<Rightarrow> step_env) \<Rightarrow> int \<Rightarrow> string list \<Rightarrow> 16 word list \<Rightarrow> worker \<Rightarrow> flow \<times> worker" where
  "questions_loop b env i [] qTypes w = (Continue, w)"
| "questions_loop b env i (q # questions) qTypes w =
     (case types_loop b env i q qTypes w of
        (Continue, w') \<Rightarrow> questions_loop b env i questions qTypes w'
      | (f, w') \<Rightarrow> (f, w'))"

text \<open>
  The outer loop (line 405). With a duration it runs until the context is cancelled,
  so it takes fuel: \<open>None\<close> when the fuel runs out before the loop ends.
\<close>

fun worker_loop ::
  "nat \<Rightarrow> Benchmark \<Rightarrow> (nat \<Rightarrow> step_env) \<Rightarrow> string list \<Rightarrow> 16 word list \<Rightarrow> int \<Rightarrow> worker \<Rightarrow>
   (flow \<times> worker) option" where
  "worker_loop 0 b env questions qTypes i w = None"
| "worker_loop (Suc fuel) b env questions qTypes i w =
     (if i < Count b \<or> Duration b \<noteq> 0 then
        (case questions_loop b env i questions qTypes w of
           (Continue, w') \<Rightarrow> worker_loop fuel b env questions qTypes (i + 1) w'
         | (f, w') \<Rightarrow> Some (f, w'))
      else Some (Continue, w))"

text \<open>
  \<open>Run\<close>: prepare, resolve the questions, then one worker per unit of
  \<open>Concurrency\<close>, each with its own surroundings. The table \<open>dns.StringToType\<close> is a
  parameter.
\<close>

definition Run ::
  "nat \<Rightarrow> (string \<Rightarrow> URL option) \<Rightarrow> (string \<Rightarrow> (int \<times> string list) option) \<Rightarrow>
   (string \<Rightarrow> string) \<Rightarrow> (string \<Rightarrow> 16 word) \<Rightarrow> (nat \<Rightarrow> nat \<Rightarrow> step_env) \<Rightarrow> Benchmark \<Rightarrow>
   error + (flow \<times> worker) option list" where
  "Run fuel url_Parse Get Fqdn StringToType envs b =
     (case prepare url_Parse b of
        Inl e \<Rightarrow> Inl e
      | Inr b' \<Rightarrow>
         (case prepareQuestions Get Fqdn b' of
            Inl e \<Rightarrow> Inl e
          | Inr questions \<Rightarrow>
             (let qTypes = map StringToType (Types b')
              in Inr (map (\<lambda>w. worker_loop fuel b' (envs w) questions qTypes 0 new_worker)
                       [0..<unat (Concurrency b')]))))"

section \<open>The format of the EDNS option, in the specification's words\<close>

text \<open>
  The specification asks of a non-empty \<open>EdnsOpt\<close> that it split on \<open>:\<close> into exactly
  two parts, of which the left is an unsigned 16-bit decimal number (decimal digits, at
  least one, of a value up to 65535) and the right a hexadecimal string (hexadecimal
  digits of either case, an even number of them). These definitions say that, apart
  from the parsers of the code.
\<close>

definition is_decimal_digit :: "char \<Rightarrow> bool" where
  "is_decimal_digit c = (CHR ''0'' \<le> c \<and> c \<le> CHR ''9'')"

definition is_hex_digit :: "char \<Rightarrow> bool" where
  "is_hex_digit c =
     ((CHR ''0'' \<le> c \<and> c \<le> CHR ''9'') \<or> (CHR ''a'' \<le> c \<and> c \<le> CHR ''f'')
      \<or> (CHR ''A'' \<le> c \<and> c \<le> CHR ''F''))"

fun decimal_value :: "nat \<Rightarrow> string \<Rightarrow> nat" where
  "decimal_value n [] = n"
| "decimal_value n (c # cs) = decimal_value (n * 10 + (of_char c - 48)) cs"

definition is_uint16_decimal :: "string \<Rightarrow> bool" where
  "is_uint16_decimal s = (s \<noteq> [] \<and> list_all is_decimal_digit s \<and> decimal_value 0 s \<le> 65535)"

definition is_hex_string :: "string \<Rightarrow> bool" where
  "is_hex_string s = (even (length s) \<and> list_all is_hex_digit s)"

definition ednsopt_wellformed :: "string \<Rightarrow> bool" where
  "ednsopt_wellformed s =
     (case Split s CHR '':'' of
        [code, hex] \<Rightarrow> is_uint16_decimal code \<and> is_hex_string hex
      | other \<Rightarrow> False)"

text \<open>The record that both callers find or create before they write to it.\<close>

definition found_or_default :: "Msg \<Rightarrow> OPT" where
  "found_or_default m =
     (case the_opt m of
        None \<Rightarrow> \<lparr>UDPSize = defaultEdns0BufferSize, Do = False, Option = []\<rparr>
      | Some opt \<Rightarrow> opt)"


section \<open>Observations on a finished worker\<close>

text \<open>
  The number of dials and the number of queries issued, and the \<open>Total\<close> of the
  recorder, of a worker that has come to its end; the ceiling of a quotient.
\<close>

definition dial_report :: "(flow \<times> worker) option \<Rightarrow> (nat \<times> nat) option" where
  "dial_report r = map_option (\<lambda>(f, w). (dials w, length (sent w))) r"

definition recorded_total :: "(flow \<times> worker) option \<Rightarrow> 64 word option" where
  "recorded_total r = map_option (\<lambda>(f, w). Total (ctr w)) r"

definition ceil_div :: "nat \<Rightarrow> nat \<Rightarrow> nat" where
  "ceil_div n k = (n + k - 1) div k"
section \<open>Auxiliary predicates and example inputs\<close>

text \<open>The kinds of the errors of a chain.\<close>

fun is_DNSError :: "err_node \<Rightarrow> bool" where
  "is_DNSError (DNSError e n) = True"
| "is_DNSError other = False"

fun is_OpError :: "err_node \<Rightarrow> bool" where
  "is_OpError (OpError op net addr) = True"
| "is_OpError other = False"

text \<open>Three recorders, the second without counters.\<close>

definition two_recorders :: "ResultStats list" where
  "two_recorders =
     [\<lparr>Counters = Some \<lparr>Total = 5, IOError = 1, Success = 2, Negative = 1, Error = 1,
                         IDmismatch = 0, Truncated = 1\<rparr>\<rparr>,
      \<lparr>Counters = None\<rparr>,
      \<lparr>Counters = Some \<lparr>Total = 3, IOError = 0, Success = 3, Negative = 0, Error = 0,
                         IDmismatch = 1, Truncated = 0\<rparr>\<rparr>]"

text \<open>
  A failed dial whose cause is a failed lookup, a failed read inside another error, and
  an expired deadline.
\<close>

definition lookup_failure :: ErrorDatapoint where
  "lookup_failure =
     \<lparr>Start = 0,
      Err = \<lparr>chain = [OpError ''dial'' ''udp'' None, DNSError ''no such host'' ''ns.example''],
             Error_msg = ''dial udp: lookup ns.example: no such host''\<rparr>\<rparr>"

definition read_failure :: ErrorDatapoint where
  "read_failure =
     \<lparr>Start = 1,
      Err = \<lparr>chain = [OtherError, OpError ''read'' ''udp'' (Some ''127.0.0.1:53''), OtherError],
             Error_msg = ''read udp 127.0.0.1:53: i/o timeout''\<rparr>\<rparr>"

definition plain_failure :: ErrorDatapoint where
  "plain_failure =
     \<lparr>Start = 2, Err = \<lparr>chain = [OtherError], Error_msg = ''context deadline exceeded''\<rparr>\<rparr>"

text \<open>
  Configurations: plain DNS towards \<open>1.2.3.4\<close> with an EDNS option and no termination
  bound given; the same over TLS; DNS over QUIC; a DoH server; plain DNS towards the
  IPv6 address \<open>::1\<close> and towards a host with a zone; and configurations that
  \<open>prepare\<close> rejects. \<open>no_url\<close> and \<open>bare_url\<close> stand for \<open>url.Parse\<close>: the first
  always fails, the second always succeeds with an empty path.
\<close>

definition no_url :: "string \<Rightarrow> URL option" where
  "no_url s = None"


definition plain_config :: Benchmark where
  "plain_config =
     \<lparr>Server = ''1.2.3.4'', Types = [''A''], Count = 0, Duration = 0, Concurrency = 1,
      Rate = 0, RateLimitWorker = 0, QperConn = 0, Recurse = True, Probability = 1,
      EdnsOpt = ''65001:deadbeef'', DNSSEC = False, Edns0 = 0, TCP = False, DOT = False,
      RequestTimeout = 5, HistMax = 0, Queries = [''example.com''],
      useDoH = False, useQuic = False\<rparr>"


definition doq_config :: Benchmark where
  "doq_config = plain_config\<lparr>Server := ''quic://1.2.3.4''\<rparr>"




definition both_bounds_config :: Benchmark where
  "both_bounds_config = plain_config\<lparr>Server := ''ns'', Count := 5, Duration := 1000000000\<rparr>"

definition no_server_config :: Benchmark where
  "no_server_config = plain_config\<lparr>Server := [], EdnsOpt := ''1:ab''\<rparr>"

definition bad_ednsopt_config :: Benchmark where
  "bad_ednsopt_config = plain_config\<lparr>EdnsOpt := ''abc''\<rparr>"

text \<open>
  Surroundings for \<open>Run\<close>: no download succeeds, \<open>to_fqdn\<close> stands for \<open>dns.Fqdn\<close>
  and \<open>type_code\<close> for the table of query types. In \<open>calm_env\<close> nothing is
  cancelled, nothing fails, every answer has response code 0 and the id 0, and every
  random draw is 0.
\<close>

definition no_Get :: "string \<Rightarrow> (int \<times> string list) option" where
  "no_Get s = None"

definition to_fqdn :: "string \<Rightarrow> string" where
  "to_fqdn s = (if s \<noteq> [] \<and> last s = CHR ''.'' then s else s @ ''.'')"

definition type_code :: "string \<Rightarrow> 16 word" where
  "type_code s = (if s = ''A'' then 1 else if s = ''AAAA'' then 28 else 0)"

definition calm_env :: "nat \<Rightarrow> step_env" where
  "calm_env n =
     \<lparr>ctx_err = False, Float64 = 0, limit_err = False, workerLimit_err = False,
      Uint32 = 0, dial_result = None,
      exchange_result = Inr \<lparr>Rcode = 0, RespTruncated = False, RespId = 0\<rparr>\<rparr>"

definition calm_envs :: "nat \<Rightarrow> nat \<Rightarrow> step_env" where
  "calm_envs w = calm_env"

text \<open>A message without additional records.\<close>

definition bare_msg :: Msg where
  "bare_msg = \<lparr>MsgId = 7, RecursionDesired = True, Question = [], Extra = []\<rparr>"

text \<open>
  Two prepared configurations for one worker: one that rotates connections every two
  queries, with one repetition; one with probability 0.
\<close>

definition rotation_config :: Benchmark where
  "rotation_config =
     plain_config\<lparr>Server := ''1.2.3.4:53'', Count := 1, QperConn := 2, EdnsOpt := [],
                  HistMax := 5\<rparr>"

definition zero_probability_config :: Benchmark where
  "zero_probability_config =
     plain_config\<lparr>Server := ''1.2.3.4:53'', Count := 1, Probability := 0, EdnsOpt := [],
                  HistMax := 5\<rparr>"

definition negative_probability_config :: Benchmark where
  "negative_probability_config = zero_probability_config\<lparr>Probability := - 1\<rparr>"

definition quic_config :: Benchmark where
  "quic_config = rotation_config\<lparr>Server := ''1.2.3.4:853'', useQuic := True\<rparr>"

section \<open>The parsers accept the specified format\<close>

text \<open>
  \<open>Split\<close> gives two parts exactly for a string with one separator; \<open>ParseUint10\<close>
  with 16 bits accepts exactly the unsigned 16-bit decimals and \<open>DecodeString\<close>
  exactly the hexadecimal strings, so the check of the EDNS option in \<open>prepare\<close>
  accepts exactly the well-formed options.
\<close>

lemma Split_not_Nil: "Split s sep \<noteq> []"
  by (induction s) (auto split: list.splits)

lemma Split_one_iff: "Split s sep = [a] \<longleftrightarrow> s = a \<and> sep \<notin> set a"
proof (induction s arbitrary: a)
  case Nil
  show ?case by auto
next
  case (Cons c cs)
  show ?case
  proof (cases "c = sep")
    case True
    then show ?thesis by (auto simp: Split_not_Nil)
  next
    case False
    obtain p ps where sp: "Split cs sep = p # ps"
      using Split_not_Nil [of cs sep] by (cases "Split cs sep") auto
    have "Split (c # cs) sep = [a] \<longleftrightarrow> (\<exists>a'. a = c # a' \<and> Split cs sep = [a'])"
      using False sp by (cases a) auto
    also have "\<dots> \<longleftrightarrow> (\<exists>a'. a = c # a' \<and> cs = a' \<and> sep \<notin> set a')"
      using Cons.IH by simp
    also have "\<dots> \<longleftrightarrow> c # cs = a \<and> sep \<notin> set a"
      using False by auto
    finally show ?thesis .
  qed
qed

lemma Split_two_iff:
  "Split s sep = [a, b] \<longleftrightarrow> s = a @ sep # b \<and> sep \<notin> set a \<and> sep \<notin> set b"
proof (induction s arbitrary: a)
  case Nil
  show ?case by auto
next
  case (Cons c cs)
  show ?case
  proof (cases "c = sep")
    case True
    then show ?thesis
      by (cases a) (auto simp: Split_one_iff)
  next
    case False
    obtain p ps where sp: "Split cs sep = p # ps"
      using Split_not_Nil [of cs sep] by (cases "Split cs sep") auto
    have "Split (c # cs) sep = [a, b] \<longleftrightarrow> (\<exists>a'. a = c # a' \<and> Split cs sep = [a', b])"
      using False sp by (cases a) auto
    also have "\<dots> \<longleftrightarrow>
        (\<exists>a'. a = c # a' \<and> cs = a' @ sep # b \<and> sep \<notin> set a' \<and> sep \<notin> set b)"
      using Cons.IH by simp
    also have "\<dots> \<longleftrightarrow> c # cs = a @ sep # b \<and> sep \<notin> set a \<and> sep \<notin> set b"
      using False by (cases a) auto
    finally show ?thesis .
  qed
qed

lemma is_decimal_digit_code: "is_decimal_digit c \<longleftrightarrow> 48 \<le> (of_char c :: nat) \<and> (of_char c :: nat) \<le> 57"
  by (simp add: is_decimal_digit_def less_eq_char_def)

lemma is_hex_digit_iff: "is_hex_digit c \<longleftrightarrow> fromHexChar c \<noteq> None"
  by (auto simp: is_hex_digit_def fromHexChar_def less_eq_char_def Let_def)

lemma decimal_value_mono: "n \<le> decimal_value n cs"
proof (induction cs arbitrary: n)
  case Nil
  show ?case by simp
next
  case (Cons c cs)
  have "n \<le> n * 10 + (of_char c - 48)" by simp
  also have "\<dots> \<le> decimal_value (n * 10 + (of_char c - 48)) cs" by (rule Cons.IH)
  finally show ?case by simp
qed

lemma ParseUint_loop_Cons:
  "ParseUint_loop maxVal n (c # cs) =
     (if is_decimal_digit c then
        (if n * 10 + (of_char c - 48) > maxVal then Inl (ErrRange, maxVal)
         else ParseUint_loop maxVal (n * 10 + (of_char c - 48)) cs)
      else Inl (ErrSyntax, 0))"
  by (simp add: is_decimal_digit_code Let_def)

lemma ParseUint_loop_Inr_iff:
  "n \<le> maxVal \<Longrightarrow> ParseUint_loop maxVal n cs = Inr v \<longleftrightarrow>
     list_all is_decimal_digit cs \<and> decimal_value n cs \<le> maxVal \<and> v = decimal_value n cs"
proof (induction cs arbitrary: n)
  case Nil
  then show ?case by auto
next
  case (Cons c cs)
  let ?n1 = "n * 10 + (of_char c - 48)"
  show ?case
  proof (cases "is_decimal_digit c")
    case False
    then show ?thesis by (simp only: ParseUint_loop_Cons) simp
  next
    case True
    show ?thesis
    proof (cases "?n1 > maxVal")
      case big: True
      have "?n1 \<le> decimal_value ?n1 cs" by (rule decimal_value_mono)
      with big have "\<not> decimal_value ?n1 cs \<le> maxVal" by simp
      with True big show ?thesis by (simp only: ParseUint_loop_Cons) simp
    next
      case small: False
      then have "?n1 \<le> maxVal" by simp
      from Cons.IH [OF this] True small show ?thesis
        by (simp only: ParseUint_loop_Cons) simp
    qed
  qed
qed

lemma ParseUint10_err_iff: "isl (ParseUint10 s 16) \<longleftrightarrow> \<not> is_uint16_decimal s"
proof -
  have "isl (ParseUint_loop 65535 0 s) \<longleftrightarrow> \<not> (\<exists>v. ParseUint_loop 65535 0 s = Inr v)"
    by (cases "ParseUint_loop 65535 0 s") auto
  then show ?thesis
    by (auto simp: ParseUint10_def is_uint16_decimal_def ParseUint_loop_Inr_iff)
qed

lemma ParseUint10_value:
  "is_uint16_decimal s \<Longrightarrow> ParseUint10 s 16 = Inr (decimal_value 0 s)"
  by (simp add: ParseUint10_def is_uint16_decimal_def ParseUint_loop_Inr_iff)

lemma DecodeString_ok_iff: "snd (DecodeString s) = None \<longleftrightarrow> is_hex_string s"
proof (induction s rule: DecodeString.induct)
  case 1
  show ?case by (simp add: is_hex_string_def)
next
  case (2 p)
  show ?case by (simp add: is_hex_string_def split: option.splits)
next
  case (3 p q rest)
  show ?case
  proof (cases "fromHexChar p")
    case None
    then show ?thesis by (simp add: is_hex_string_def is_hex_digit_iff)
  next
    case pa: (Some a)
    show ?thesis
    proof (cases "fromHexChar q")
      case None
      then show ?thesis using pa by (simp add: is_hex_string_def is_hex_digit_iff)
    next
      case qb: (Some b)
      from "3.IH" [OF pa qb] pa qb show ?thesis
        by (cases "DecodeString rest") (simp add: is_hex_string_def is_hex_digit_iff)
    qed
  qed
qed

lemma prepare_ednsopt_cases:
  "prepare_ednsopt b =
     (if EdnsOpt b = [] \<or> ednsopt_wellformed (EdnsOpt b) then Inr b
      else Inl (if length (Split (EdnsOpt b) CHR '':'') \<noteq> 2 then ErrEdnsOptFormat
                else if \<not> is_hex_string (Split (EdnsOpt b) CHR '':'' ! 1) then ErrEdnsOptData
                else ErrEdnsOptCode))"
proof (cases "EdnsOpt b = []")
  case True
  then show ?thesis by (simp add: prepare_ednsopt_def)
next
  case False
  show ?thesis
  proof (cases "length (Split (EdnsOpt b) CHR '':'') = 2")
    case True
    then obtain c h where sp: "Split (EdnsOpt b) CHR '':'' = [c, h]"
      by (cases "Split (EdnsOpt b) CHR '':''" rule: list.exhaust)
         (auto simp: length_Suc_conv)
    show ?thesis
      using False sp
      by (simp add: prepare_ednsopt_def ednsopt_wellformed_def DecodeString_ok_iff
            ParseUint10_err_iff)
  next
    case nottwo: False
    then have "\<not> ednsopt_wellformed (EdnsOpt b)"
      by (auto simp: ednsopt_wellformed_def split: list.splits)
    with False nottwo show ?thesis
      by (simp add: prepare_ednsopt_def)
  qed
qed

section \<open>The stages of prepare\<close>

lemma isHTTPUrl_not_quic: "fst (isHTTPUrl s) \<Longrightarrow> \<not> HasPrefix s ''quic://''"
  by (auto simp: isHTTPUrl_def HasPrefix_def prefix_def split: if_splits)

lemma prepare_server_Server:
  "prepare_server url_Parse b =
     (if fst (isHTTPUrl (Server b)) then
        (case url_Parse (Server b) of
           None \<Rightarrow> Inl ErrURLParse
         | Some u \<Rightarrow>
            Inr (b\<lparr>Server := (if Path u = [] then Server b @ ''/dns-query'' else Server b),
                   useDoH := True, useQuic := False\<rparr>))
      else Inr (b\<lparr>Server := TrimPrefix (Server b) ''quic://'',
                  useDoH := False, useQuic := HasPrefix (Server b) ''quic://''\<rparr>))"
proof (cases "fst (isHTTPUrl (Server b))")
  case True
  then have nq: "\<not> HasPrefix (Server b) ''quic://''" by (rule isHTTPUrl_not_quic)
  show ?thesis
    using True nq by (simp add: prepare_server_def Let_def split: option.splits)
next
  case False
  then show ?thesis
    by (simp add: prepare_server_def Let_def TrimPrefix_def)
qed

lemma addPortIfMissing_Server:
  "addPortIfMissing b =
     (if useDoH b then b
      else b\<lparr>Server := (if isl (SplitHostPort (Server b))
                        then JoinHostPort (Server b) (if DOT b \<or> useQuic b then ''853'' else ''53'')
                        else Server b)\<rparr>)"
  by (simp add: addPortIfMissing_def)

lemma prepare_bounds_cases:
  "prepare_bounds b =
     (if (Duration b > 0 \<and> Count b > 0) then Inl ErrNumberAndDuration
      else if Edns0 b \<noteq> 0 \<and> (Edns0 b < 512 \<or> Edns0 b > 4096) then Inl ErrEdns0Range
      else Inr (b\<lparr>Count := (if Count b = 0 \<and> Duration b = 0 then 1 else Count b),
                  HistMax := (if HistMax b = 0 then RequestTimeout b else HistMax b)\<rparr>))"
  by (simp add: prepare_bounds_def Let_def)


lemma prepare_server_EdnsOpt:
  "prepare_server url_Parse (b\<lparr>EdnsOpt := x\<rparr>) =
     (case prepare_server url_Parse b of Inl e \<Rightarrow> Inl e | Inr b1 \<Rightarrow> Inr (b1\<lparr>EdnsOpt := x\<rparr>))"
  by (simp add: prepare_server_Server split: option.splits)

lemma addPortIfMissing_EdnsOpt:
  "addPortIfMissing (b\<lparr>EdnsOpt := x\<rparr>) = (addPortIfMissing b)\<lparr>EdnsOpt := x\<rparr>"
  by (simp add: addPortIfMissing_Server)

lemma prepare_bounds_EdnsOpt:
  "prepare_bounds (b\<lparr>EdnsOpt := x\<rparr>) =
     (case prepare_bounds b of Inl e \<Rightarrow> Inl e | Inr b1 \<Rightarrow> Inr (b1\<lparr>EdnsOpt := x\<rparr>))"
  by (simp add: prepare_bounds_cases)

lemma prepare_bounds_keeps_EdnsOpt:
  "prepare_bounds b = Inr b1 \<Longrightarrow> EdnsOpt b1 = EdnsOpt b"
  by (auto simp: prepare_bounds_cases split: if_splits)

lemma prepare_ednsopt_empty: "EdnsOpt b = [] \<Longrightarrow> prepare_ednsopt b = Inr b"
  by (simp add: prepare_ednsopt_def)

lemma prepare_ednsopt_Inr: "prepare_ednsopt b = Inr b' \<Longrightarrow> b' = b"
  by (simp add: prepare_ednsopt_cases split: if_splits)

lemma prepare_pass_ednsopt:
  "prepare url_Parse b =
     (case prepare url_Parse (b\<lparr>EdnsOpt := []\<rparr>) of
        Inl e \<Rightarrow> Inl e
      | Inr b' \<Rightarrow> prepare_ednsopt (b'\<lparr>EdnsOpt := EdnsOpt b\<rparr>))"
proof (cases "Server b = []")
  case True
  then show ?thesis by (simp add: prepare_def)
next
  case ne: False
  show ?thesis
  proof (cases "prepare_server url_Parse b")
    case (Inl e)
    with ne show ?thesis by (simp add: prepare_def prepare_server_EdnsOpt)
  next
    case s: (Inr b1)
    show ?thesis
    proof (cases "prepare_bounds (addPortIfMissing b1)")
      case (Inl e)
      with ne s show ?thesis
        by (simp add: prepare_def prepare_server_EdnsOpt addPortIfMissing_EdnsOpt
              prepare_bounds_EdnsOpt)
    next
      case (Inr b2)
      have "EdnsOpt b2 = EdnsOpt b"
        using prepare_bounds_keeps_EdnsOpt [OF Inr] s
        by (auto simp: addPortIfMissing_Server prepare_server_Server
              split: if_splits option.splits)
      then have "b2\<lparr>EdnsOpt := [], EdnsOpt := EdnsOpt b\<rparr> = b2" by simp
      with ne s Inr show ?thesis
        by (simp add: prepare_def prepare_server_EdnsOpt addPortIfMissing_EdnsOpt
              prepare_bounds_EdnsOpt prepare_ednsopt_empty)
    qed
  qed
qed

lemma prepare_Inr_ednsopt:
  assumes "prepare url_Parse b = Inr b'"
  shows "EdnsOpt b' = EdnsOpt b \<and> (EdnsOpt b = [] \<or> ednsopt_wellformed (EdnsOpt b))"
proof -
  from assms obtain b0 where
    "prepare_ednsopt (b0\<lparr>EdnsOpt := EdnsOpt b\<rparr>) = Inr b'"
    by (subst (asm) prepare_pass_ednsopt) (auto split: sum.splits)
  then show ?thesis
    by (auto simp: prepare_ednsopt_cases split: if_splits)
qed

lemma ednsopt_example: "ednsopt_wellformed ''65001:deadbeef''"
  by (simp add: ednsopt_wellformed_def is_uint16_decimal_def is_hex_string_def
        is_decimal_digit_def is_hex_digit_def less_eq_char_def)

lemma ednsopt_wellformed_parsers:
  "ednsopt_wellformed s \<longleftrightarrow>
     (\<exists>c h. Split s CHR '':'' = [c, h] \<and> \<not> isl (ParseUint10 c 16) \<and> snd (DecodeString h) = None)"
  by (auto simp: ednsopt_wellformed_def ParseUint10_err_iff DecodeString_ok_iff
        split: list.splits)


lemma no_colon_IndexByte: "c \<notin> set s \<Longrightarrow> IndexByte s c = None"
  by (induction s) auto





text \<open>What \<open>prepare\<close> makes of the example configurations.\<close>

lemma prepare_plain_config:
  "prepare no_url plain_config =
     Inr (plain_config\<lparr>Server := ''1.2.3.4:53'', Count := 1, HistMax := 5\<rparr>)"
  by (simp add: plain_config_def prepare_def prepare_server_Server addPortIfMissing_Server
        prepare_bounds_cases prepare_ednsopt_cases isHTTPUrl_def HasPrefix_def TrimPrefix_def
        SplitHostPort_def JoinHostPort_def ednsopt_example)


lemma prepare_doq_config:
  "prepare no_url doq_config =
     Inr (doq_config\<lparr>Server := ''1.2.3.4:853'', Count := 1, HistMax := 5, useQuic := True\<rparr>)"
  by (simp add: doq_config_def plain_config_def prepare_def prepare_server_Server
        addPortIfMissing_Server prepare_bounds_cases prepare_ednsopt_cases isHTTPUrl_def
        HasPrefix_def TrimPrefix_def SplitHostPort_def JoinHostPort_def ednsopt_example)




section \<open>OPT records\<close>

lemma IsEdns0_from_Some:
  "IsEdns0_from rrs n = Some i \<Longrightarrow> i < n \<and> (\<exists>opt. rrs ! i = OPT_RR opt)"
proof (induction n)
  case 0
  then show ?case by simp
next
  case (Suc n)
  then show ?case
    by (cases "rrs ! n") (auto simp: less_Suc_eq)
qed

lemma IsEdns0_from_same_kinds:
  "\<forall>j < n. (\<exists>opt. rrs' ! j = OPT_RR opt) = (\<exists>opt. rrs ! j = OPT_RR opt) \<Longrightarrow>
   IsEdns0_from rrs' n = IsEdns0_from rrs n"
proof (induction n)
  case 0
  show ?case by simp
next
  case (Suc n)
  then have ih: "IsEdns0_from rrs' n = IsEdns0_from rrs n" by simp
  from Suc.prems have "(\<exists>opt. rrs' ! n = OPT_RR opt) = (\<exists>opt. rrs ! n = OPT_RR opt)"
    by simp
  then show ?case
    using ih by (cases "rrs ! n"; cases "rrs' ! n") auto
qed

lemma IsEdns0_SetEdns0: "IsEdns0 (SetEdns0 m udpsize do) = Some (length (Extra m))"
  by (simp add: IsEdns0_def SetEdns0_def)

lemma the_opt_SetEdns0:
  "the_opt (SetEdns0 m udpsize do) = Some \<lparr>UDPSize = udpsize, Do = do, Option = []\<rparr>"
  by (simp add: the_opt_def IsEdns0_SetEdns0) (simp add: SetEdns0_def)

lemma IsEdns0_Some_the_opt:
  "IsEdns0 m = Some i \<Longrightarrow> i < length (Extra m) \<and> (\<exists>opt. Extra m ! i = OPT_RR opt \<and> the_opt m = Some opt)"
  using IsEdns0_from_Some [of "Extra m" "length (Extra m)" i]
  by (auto simp: IsEdns0_def the_opt_def)

lemma the_opt_None_iff: "the_opt m = None \<longleftrightarrow> IsEdns0 m = None"
proof (cases "IsEdns0 m")
  case None
  then show ?thesis by (simp add: the_opt_def)
next
  case (Some i)
  with IsEdns0_Some_the_opt [OF Some] show ?thesis by auto
qed

lemma IsEdns0_update_opt: "IsEdns0 (update_opt m i f) = IsEdns0 m"
proof -
  let ?new = "case Extra m ! i of OPT_RR opt \<Rightarrow> OPT_RR (f opt) | Other_RR \<Rightarrow> Other_RR"
  have "(\<exists>opt. (Extra m)[i := ?new] ! j = OPT_RR opt) = (\<exists>opt. Extra m ! j = OPT_RR opt)"
    if "j < length (Extra m)" for j
  proof (cases "j = i")
    case True
    with that show ?thesis by (cases "Extra m ! i") simp_all
  next
    case False
    then show ?thesis by simp
  qed
  then show ?thesis
    using IsEdns0_from_same_kinds [of "length (Extra m)" "(Extra m)[i := ?new]" "Extra m"]
    by (simp add: IsEdns0_def update_opt_def)
qed

lemma the_opt_update_opt:
  assumes "IsEdns0 m = Some i" and "the_opt m = Some opt"
  shows "the_opt (update_opt m i f) = Some (f opt)"
proof -
  from IsEdns0_Some_the_opt [OF assms(1)] assms(2)
  have "i < length (Extra m)" and "Extra m ! i = OPT_RR opt" by auto
  then show ?thesis
    using assms(1) by (simp add: the_opt_def IsEdns0_update_opt) (simp add: update_opt_def)
qed

lemma MsgId_update_opt: "MsgId (update_opt m i f) = MsgId m"
  by (simp add: update_opt_def)

lemma MsgId_SetEdns0: "MsgId (SetEdns0 m udpsize do) = MsgId m"
  by (simp add: SetEdns0_def)

lemma ensure_opt:
  obtains m1 i where
    "(case IsEdns0 m of
        None \<Rightarrow> (let m' = SetEdns0 m defaultEdns0BufferSize False in (m', IsEdns0 m'))
      | Some i \<Rightarrow> (m, Some i)) = (m1, Some i)"
    "IsEdns0 m1 = Some i" "the_opt m1 = Some (found_or_default m)" "MsgId m1 = MsgId m"
proof (cases "IsEdns0 m")
  case None
  then have "the_opt m = None" by (simp add: the_opt_None_iff)
  with None that [of "SetEdns0 m defaultEdns0BufferSize False" "length (Extra m)"]
  show ?thesis
    by (simp add: IsEdns0_SetEdns0 the_opt_SetEdns0 found_or_default_def MsgId_SetEdns0)
next
  case (Some i)
  with IsEdns0_Some_the_opt [OF Some] that [of m i] show ?thesis
    by (auto simp: found_or_default_def)
qed

lemma addEdnsOpt_two_parts:
  assumes "length (Split s CHR '':'') \<ge> 2"
  shows "\<exists>m'. addEdnsOpt m s = Inr m' \<and> MsgId m' = MsgId m \<and>
     the_opt m' =
       Some ((found_or_default m)
          \<lparr>Option := Option (found_or_default m) @
             [\<lparr>Code = of_nat (case ParseUint10 (Split s CHR '':'' ! 0) 16 of
                                 Inl (e, v) \<Rightarrow> v | Inr v \<Rightarrow> v),
               Data = fst (DecodeString (Split s CHR '':'' ! 1))\<rparr>]\<rparr>)"
proof -
  obtain m1 i where e:
    "(case IsEdns0 m of
        None \<Rightarrow> (let m' = SetEdns0 m defaultEdns0BufferSize False in (m', IsEdns0 m'))
      | Some i \<Rightarrow> (m, Some i)) = (m1, Some i)"
    "IsEdns0 m1 = Some i" "the_opt m1 = Some (found_or_default m)" "MsgId m1 = MsgId m"
    by (rule ensure_opt)
  from assms have "\<not> length (Split s CHR '':'') < 2" by simp
  then show ?thesis
    unfolding addEdnsOpt_def e(1)
    by (simp add: Let_def the_opt_update_opt [OF e(2) e(3)] MsgId_update_opt e(4))
qed

lemma addEdnsOpt_panics:
  "length (Split s CHR '':'') < 2 \<Longrightarrow> addEdnsOpt m s = Inl IndexOutOfRange"
  by (simp add: addEdnsOpt_def Let_def split: prod.splits)

lemma setDNSSEC_ok:
  "\<exists>m'. setDNSSEC m = Inr m' \<and> MsgId m' = MsgId m \<and>
     the_opt m' = Some ((found_or_default m)\<lparr>Do := True\<rparr>)"
proof -
  obtain m1 i where e:
    "(case IsEdns0 m of
        None \<Rightarrow> (let m' = SetEdns0 m defaultEdns0BufferSize False in (m', IsEdns0 m'))
      | Some i \<Rightarrow> (m, Some i)) = (m1, Some i)"
    "IsEdns0 m1 = Some i" "the_opt m1 = Some (found_or_default m)" "MsgId m1 = MsgId m"
    by (rule ensure_opt)
  show ?thesis
    unfolding setDNSSEC_def e(1)
    by (simp add: the_opt_update_opt [OF e(2) e(3)] MsgId_update_opt e(4))
qed

lemma build_msg_MsgId:
  assumes "build_msg b q qt r = Inr m"
  shows "MsgId m = (if useQuic b then 0 else ucast r)"
proof -
  define m1 where "m1 = \<lparr>MsgId = (if useQuic b then 0 else ucast r), RecursionDesired = Recurse b,
                Question = [\<lparr>Name = q, Qtype = qt, Qclass = ClassINET\<rparr>], Extra = []\<rparr>"
  define m2 where "m2 = (if Edns0 b > 0 then SetEdns0 m1 (Edns0 b) False else m1)"
  have id2: "MsgId m2 = (if useQuic b then 0 else ucast r)"
    by (simp add: m2_def m1_def MsgId_SetEdns0)
  have unf: "build_msg b q qt r =
     (case (if length (EdnsOpt b) > 0 then addEdnsOpt m2 (EdnsOpt b) else Inr m2) of
           Inl p \<Rightarrow> Inl p
         | Inr m3 \<Rightarrow> (if DNSSEC b then setDNSSEC m3 else Inr m3))"
    by (simp add: build_msg_def m2_def m1_def Let_def)
  from assms unf obtain m3 where
    m3: "(if length (EdnsOpt b) > 0 then addEdnsOpt m2 (EdnsOpt b) else Inr m2) = Inr m3"
    and m: "(if DNSSEC b then setDNSSEC m3 else Inr m3) = Inr m"
    by (auto split: sum.splits)
  have id3: "MsgId m3 = MsgId m2"
  proof (cases "length (EdnsOpt b) > 0")
    case True
    with m3 have a: "addEdnsOpt m2 (EdnsOpt b) = Inr m3" by simp
    then have "\<not> length (Split (EdnsOpt b) CHR '':'') < 2"
      using addEdnsOpt_panics [of "EdnsOpt b" m2] by auto
    then have "length (Split (EdnsOpt b) CHR '':'') \<ge> 2" by simp
    from addEdnsOpt_two_parts [OF this, of m2] a show ?thesis by auto
  next
    case False
    with m3 show ?thesis by simp
  qed
  have "MsgId m = MsgId m3"
    using m setDNSSEC_ok [of m3] by (auto split: if_splits)
  with id3 id2 show ?thesis by simp
qed

lemma the_opt_fresh:
  "the_opt \<lparr>MsgId = i, RecursionDesired = rd, Question = qs, Extra = []\<rparr> = None"
  by (simp add: the_opt_def IsEdns0_def)

lemma build_msg_opt:
  assumes "EdnsOpt b \<noteq> []" and "length (Split (EdnsOpt b) CHR '':'') \<ge> 2"
  shows "\<exists>m. build_msg b q qt r = Inr m \<and>
     the_opt m =
       Some \<lparr>UDPSize = (if Edns0 b > 0 then Edns0 b else defaultEdns0BufferSize),
             Do = DNSSEC b,
             Option =
               [\<lparr>Code = of_nat (case ParseUint10 (Split (EdnsOpt b) CHR '':'' ! 0) 16 of
                                   Inl (e, v) \<Rightarrow> v | Inr v \<Rightarrow> v),
                 Data = fst (DecodeString (Split (EdnsOpt b) CHR '':'' ! 1))\<rparr>]\<rparr>"
proof -
  define m1 where "m1 = \<lparr>MsgId = (if useQuic b then 0 else ucast r), RecursionDesired = Recurse b,
                Question = [\<lparr>Name = q, Qtype = qt, Qclass = ClassINET\<rparr>], Extra = []\<rparr>"
  define m2 where "m2 = (if Edns0 b > 0 then SetEdns0 m1 (Edns0 b) False else m1)"
  have fd2: "found_or_default m2 =
      \<lparr>UDPSize = (if Edns0 b > 0 then Edns0 b else defaultEdns0BufferSize),
       Do = False, Option = []\<rparr>"
    by (simp add: m2_def found_or_default_def the_opt_SetEdns0) (simp add: m1_def the_opt_fresh)
  have unf: "build_msg b q qt r =
     (case addEdnsOpt m2 (EdnsOpt b) of
           Inl p \<Rightarrow> Inl p
         | Inr m3 \<Rightarrow> (if DNSSEC b then setDNSSEC m3 else Inr m3))"
    using assms(1) by (simp add: build_msg_def m2_def m1_def Let_def)
  from addEdnsOpt_two_parts [OF assms(2), of m2] obtain m3 where
    a: "addEdnsOpt m2 (EdnsOpt b) = Inr m3" and
    o3: "the_opt m3 =
       Some ((found_or_default m2)
          \<lparr>Option := Option (found_or_default m2) @
             [\<lparr>Code = of_nat (case ParseUint10 (Split (EdnsOpt b) CHR '':'' ! 0) 16 of
                                 Inl (e, v) \<Rightarrow> v | Inr v \<Rightarrow> v),
               Data = fst (DecodeString (Split (EdnsOpt b) CHR '':'' ! 1))\<rparr>]\<rparr>)"
    by blast
  show ?thesis
  proof (cases "DNSSEC b")
    case False
    with a o3 fd2 unf show ?thesis by simp
  next
    case True
    from setDNSSEC_ok [of m3] obtain m where
      d: "setDNSSEC m3 = Inr m" and o: "the_opt m = Some ((found_or_default m3)\<lparr>Do := True\<rparr>)"
      by blast
    from o3 have "found_or_default m3 = (found_or_default m2)
          \<lparr>Option := Option (found_or_default m2) @
             [\<lparr>Code = of_nat (case ParseUint10 (Split (EdnsOpt b) CHR '':'' ! 0) 16 of
                                 Inl (e, v) \<Rightarrow> v | Inr v \<Rightarrow> v),
               Data = fst (DecodeString (Split (EdnsOpt b) CHR '':'' ! 1))\<rparr>]\<rparr>"
      by (simp add: found_or_default_def)
    with True a d o fd2 unf show ?thesis by simp
  qed
qed

lemma build_msg_total:
  assumes "EdnsOpt b = [] \<or> length (Split (EdnsOpt b) CHR '':'') \<ge> 2"
  shows "\<exists>m. build_msg b q qt r = Inr m"
proof (cases "EdnsOpt b = []")
  case True
  then show ?thesis
    using setDNSSEC_ok by (simp add: build_msg_def Let_def) blast
next
  case False
  with assms build_msg_opt [of b q qt r] show ?thesis by blast
qed

section \<open>The loops of a worker\<close>

lemma query_keeps:
  "query b e i w = (res, w') \<Longrightarrow> sent w' = sent w \<and> ctr w' = ctr w \<and> tick w' = tick w"
  by (auto simp: query_def plain_query_def Let_def split: if_splits option.splits sum.splits)

lemma iteration_cases:
  assumes "iteration b env i q qt w = (f, w')"
  shows "(sent w' = sent w \<and> ctr w' = ctr w) \<or>
         (\<exists>m res. f = Continue \<and> \<not> ctx_err (env (tick w)) \<and>
            \<not> Float64 (env (tick w)) > Probability b \<and>
            build_msg b q qt (Uint32 (env (tick w))) = Inr m \<and>
            sent w' = sent w @ [m] \<and>
            ctr w' = record_result (\<not> useQuic b) m res (ctr w))"
proof -
  let ?e = "env (tick w)"
  let ?w = "w\<lparr>tick := Suc (tick w)\<rparr>"
  show ?thesis
  proof (cases "ctx_err ?e \<or> Float64 ?e > Probability b \<or> (Rate b > 0 \<and> limit_err ?e)
                 \<or> (RateLimitWorker b > 0 \<and> workerLimit_err ?e)")
    case True
    with assms show ?thesis
      by (auto simp: iteration_def Let_def split: if_splits)
  next
    case False
    show ?thesis
    proof (cases "build_msg b q qt (Uint32 ?e)")
      case (Inl p)
      with False assms show ?thesis
        by (auto simp: iteration_def Let_def)
    next
      case (Inr m)
      obtain res w1 where q: "query b ?e i ?w = (res, w1)"
        by (cases "query b ?e i ?w") auto
      from query_keeps [OF q] have k: "sent w1 = sent w" "ctr w1 = ctr w" by simp_all
      from False Inr q assms have fc: "f = Continue"
        and w': "w' = w1\<lparr>sent := sent w1 @ [m],
                        ctr := record_result (\<not> useQuic b) m res (ctr w1)\<rparr>"
        by (auto simp: iteration_def Let_def)
      have "f = Continue \<and> \<not> ctx_err ?e \<and> \<not> Float64 ?e > Probability b \<and>
            build_msg b q qt (Uint32 ?e) = Inr m \<and> sent w' = sent w @ [m] \<and>
            ctr w' = record_result (\<not> useQuic b) m res (ctr w)"
        using False Inr fc w' k by simp
      then show ?thesis by blast
    qed
  qed
qed

lemma record_result_Total: "Total (record_result cid m res c) = Total c + 1"
  by (simp add: record_result_def Let_def split: sum.splits)

text \<open>A property of workers that every pass keeps is kept by the three loops.\<close>

lemma types_loop_keeps:
  assumes step: "\<And>qt w f w'. I w \<Longrightarrow> iteration b env i q qt w = (f, w') \<Longrightarrow> I w'"
  shows "I w \<Longrightarrow> types_loop b env i q qTypes w = (f, w') \<Longrightarrow> I w'"
proof (induction qTypes arbitrary: w)
  case Nil
  then show ?case by simp
next
  case (Cons qt qTypes)
  obtain f1 w1 where it: "iteration b env i q qt w = (f1, w1)"
    by (cases "iteration b env i q qt w") auto
  from step [OF Cons.prems(1) it] have i1: "I w1" .
  show ?case
  proof (cases "f1 = Continue")
    case True
    with Cons.prems(2) it have "types_loop b env i q qTypes w1 = (f, w')" by simp
    from Cons.IH [OF i1 this] show ?thesis .
  next
    case False
    with Cons.prems(2) it have "w' = w1" by (cases f1) auto
    with i1 show ?thesis by simp
  qed
qed

lemma questions_loop_keeps:
  assumes step: "\<And>q qt w f w'. I w \<Longrightarrow> iteration b env i q qt w = (f, w') \<Longrightarrow> I w'"
  shows "I w \<Longrightarrow> questions_loop b env i questions qTypes w = (f, w') \<Longrightarrow> I w'"
proof (induction questions arbitrary: w)
  case Nil
  then show ?case by simp
next
  case (Cons q questions)
  obtain f1 w1 where tl: "types_loop b env i q qTypes w = (f1, w1)"
    by (cases "types_loop b env i q qTypes w") auto
  have i1: "I w1"
    using types_loop_keeps [of I b env i q w qTypes f1 w1] step Cons.prems(1) tl by blast
  show ?case
  proof (cases "f1 = Continue")
    case True
    with Cons.prems(2) tl have "questions_loop b env i questions qTypes w1 = (f, w')" by simp
    from Cons.IH [OF i1 this] show ?thesis .
  next
    case False
    with Cons.prems(2) tl have "w' = w1" by (cases f1) auto
    with i1 show ?thesis by simp
  qed
qed

lemma worker_loop_keeps:
  assumes step: "\<And>i q qt w f w'. I w \<Longrightarrow> iteration b env i q qt w = (f, w') \<Longrightarrow> I w'"
  shows "I w \<Longrightarrow> worker_loop fuel b env questions qTypes i w = Some (f, w') \<Longrightarrow> I w'"
proof (induction fuel arbitrary: i w)
  case 0
  then show ?case by simp
next
  case (Suc fuel)
  show ?case
  proof (cases "i < Count b \<or> Duration b \<noteq> 0")
    case False
    with Suc.prems show ?thesis by simp
  next
    case True
    obtain f1 w1 where ql: "questions_loop b env i questions qTypes w = (f1, w1)"
      by (cases "questions_loop b env i questions qTypes w") auto
    have i1: "I w1"
      using questions_loop_keeps [of I b env i w questions qTypes f1 w1] step Suc.prems(1) ql
      by blast
    show ?thesis
    proof (cases "f1 = Continue")
      case c: True
      with Suc.prems(2) True ql
      have "worker_loop fuel b env questions qTypes (i + 1) w1 = Some (f, w')" by simp
      from Suc.IH [OF i1 this] show ?thesis .
    next
      case False
      with Suc.prems(2) True ql have "w' = w1" by (cases f1) auto
      with i1 show ?thesis by simp
    qed
  qed
qed

text \<open>With a count and no duration the outer loop ends within \<open>Count\<close> rounds.\<close>

lemma worker_loop_count_ends:
  "Duration b = 0 \<Longrightarrow> nat (Count b - i) < fuel \<Longrightarrow>
   \<exists>r. worker_loop fuel b env questions qTypes i w = Some r"
proof (induction fuel arbitrary: i w)
  case 0
  then show ?case by simp
next
  case (Suc fuel)
  show ?case
  proof (cases "i < Count b")
    case False
    with Suc.prems show ?thesis by simp
  next
    case True
    obtain f1 w1 where ql: "questions_loop b env i questions qTypes w = (f1, w1)"
      by (cases "questions_loop b env i questions qTypes w") auto
    from True Suc.prems(2) have "nat (Count b - (i + 1)) < fuel" by simp
    from Suc.IH [OF Suc.prems(1) this, of w1] True ql show ?thesis
      by (cases f1) auto
  qed
qed

lemma prepare_useQuic:
  "prepare url_Parse b0 = Inr b \<Longrightarrow> useQuic b = HasPrefix (Server b0) ''quic://''"
  by (auto simp: prepare_def prepare_server_Server addPortIfMissing_Server prepare_bounds_cases
        dest!: prepare_ednsopt_Inr isHTTPUrl_not_quic split: if_splits sum.splits option.splits)

lemma iteration_skipped:
  "\<not> ctx_err (env (tick w)) \<Longrightarrow> Float64 (env (tick w)) > Probability b \<Longrightarrow>
   iteration b env i q qt w = (Continue, w\<lparr>tick := Suc (tick w)\<rparr>)"
  by (simp add: iteration_def Let_def)

lemma iteration_issued:
  assumes "\<not> ctx_err (env (tick w))" and "\<not> Float64 (env (tick w)) > Probability b"
    and "iteration b env i q qt w = (Continue, w')"
  shows "\<exists>m res. sent w' = sent w @ [m] \<and> ctr w' = record_result (\<not> useQuic b) m res (ctr w)"
proof -
  let ?e = "env (tick w)"
  let ?w = "w\<lparr>tick := Suc (tick w)\<rparr>"
  from assms have lim: "\<not> (Rate b > 0 \<and> limit_err ?e)"
    "\<not> (RateLimitWorker b > 0 \<and> workerLimit_err ?e)"
    by (auto simp: iteration_def Let_def split: if_splits)
  from assms lim obtain m where m: "build_msg b q qt (Uint32 ?e) = Inr m"
    by (cases "build_msg b q qt (Uint32 ?e)") (auto simp: iteration_def Let_def)
  obtain res w1 where q: "query b ?e i ?w = (res, w1)"
    by (cases "query b ?e i ?w") auto
  from query_keeps [OF q] have k: "sent w1 = sent w" "ctr w1 = ctr w" by simp_all
  from assms lim m q have "w' = w1\<lparr>sent := sent w1 @ [m],
                        ctr := record_result (\<not> useQuic b) m res (ctr w1)\<rparr>"
    by (auto simp: iteration_def Let_def)
  with k have "sent w' = sent w @ [m] \<and> ctr w' = record_result (\<not> useQuic b) m res (ctr w)"
    by simp
  then show ?thesis by blast
qed

lemma iteration_all_skipped:
  assumes "Probability b < 0" and "\<forall>n. 0 \<le> Float64 (env n)"
    and "iteration b env i q qt w = (f, w')"
  shows "sent w' = sent w \<and> ctr w' = ctr w"
proof -
  from assms(1,2) have "Float64 (env (tick w)) > Probability b"
    by (meson le_less_trans less_le_trans not_le order_refl)
  with assms(3) show ?thesis
    by (auto simp: iteration_def Let_def split: if_splits)
qed

lemma zero_probability_run:
  "worker_loop 2 zero_probability_config calm_env [''a.''] [1] 0 new_worker =
     Some (Continue,
       \<lparr>co = True,
        ctr = no_counters\<lparr>Total := 1, Success := 1\<rparr>,
        tick = 1, dials = 1,
        sent = [\<lparr>MsgId = 0, RecursionDesired = True,
                 Question = [\<lparr>Name = ''a.'', Qtype = 1, Qclass = 1\<rparr>], Extra = []\<rparr>]\<rparr>)"
  by (simp add: zero_probability_config_def plain_config_def calm_env_def new_worker_def
       iteration_def query_def plain_query_def build_msg_def Let_def record_result_def
       no_counters_def ClassINET_def numeral_2_eq_2)

lemma rotation_run:
  "worker_loop 2 rotation_config calm_env [''a.'', ''b.''] [1] 0 new_worker =
     Some (Continue,
       \<lparr>co = True,
        ctr = no_counters\<lparr>Total := 2, Success := 2\<rparr>,
        tick = 2, dials = 2,
        sent = [\<lparr>MsgId = 0, RecursionDesired = True,
                 Question = [\<lparr>Name = ''a.'', Qtype = 1, Qclass = 1\<rparr>], Extra = []\<rparr>,
                \<lparr>MsgId = 0, RecursionDesired = True,
                 Question = [\<lparr>Name = ''b.'', Qtype = 1, Qclass = 1\<rparr>], Extra = []\<rparr>]\<rparr>)"
  by (simp add: rotation_config_def plain_config_def calm_env_def new_worker_def
       iteration_def query_def plain_query_def build_msg_def Let_def record_result_def
       no_counters_def ClassINET_def numeral_2_eq_2)

text \<open>
  With one question and one type every round of the outer loop issues one query, the
  loop counter counts the queries, and the dials are the ceiling of the queries over
  \<open>QperConn\<close>.
\<close>

lemma ceil_div_Suc:
  assumes "0 < k"
  shows "ceil_div (Suc n) k = (if n mod k = 0 then Suc (ceil_div n k) else ceil_div n k)"
proof -
  from assms have e: "Suc n + k - 1 = Suc (n + k - 1)" by simp
  have "Suc (n + k - 1) mod k = n mod k"
    using assms by (metis Suc_pred' add_Suc_right add_gr_0 mod_add_self2)
  then show ?thesis
    unfolding ceil_div_def e by (simp add: div_Suc)
qed

lemma single_round:
  assumes plain: "\<not> useDoH b" "\<not> useQuic b"
    and calm: "\<not> ctx_err (env (tick w))" "\<not> Float64 (env (tick w)) > Probability b"
      "\<not> (Rate b > 0 \<and> limit_err (env (tick w)))"
      "\<not> (RateLimitWorker b > 0 \<and> workerLimit_err (env (tick w)))"
      "dial_result (env (tick w)) = None" "\<not> isl (exchange_result (env (tick w)))"
    and opt: "EdnsOpt b = []"
  shows "\<exists>w'. questions_loop b env i [q] [qt] w = (Continue, w') \<and>
     co w' \<and> tick w' = Suc (tick w) \<and> length (sent w') = Suc (length (sent w)) \<and>
     dials w' = (if co w \<and> \<not> (QperConn b > 0 \<and> i mod QperConn b = 0)
                 then dials w else Suc (dials w))"
proof -
  obtain m where m: "build_msg b q qt (Uint32 (env (tick w))) = Inr m"
    using build_msg_total [of b q qt] opt by blast
  obtain r where r: "exchange_result (env (tick w)) = Inr r"
    using calm(6) by (cases "exchange_result (env (tick w))") auto
  show ?thesis
    using plain calm(1-5) m r
    by (simp add: iteration_def query_def plain_query_def Let_def)
qed

lemma rotation_rounds:
  assumes plain: "\<not> useDoH b" "\<not> useQuic b"
    and k: "QperConn b > 0" and d: "Duration b = 0" and opt: "EdnsOpt b = []"
    and calm: "\<forall>n. \<not> ctx_err (env n) \<and> \<not> Float64 (env n) > Probability b \<and>
        \<not> (Rate b > 0 \<and> limit_err (env n)) \<and>
        \<not> (RateLimitWorker b > 0 \<and> workerLimit_err (env n)) \<and>
        dial_result (env n) = None \<and> \<not> isl (exchange_result (env n))"
  shows "0 \<le> i \<Longrightarrow> i \<le> Count b \<Longrightarrow> nat (Count b - i) < fuel \<Longrightarrow>
     co w = (0 < i) \<Longrightarrow> dials w = ceil_div (nat i) (nat (QperConn b)) \<Longrightarrow>
     length (sent w) = nat i \<Longrightarrow>
     \<exists>w'. worker_loop fuel b env [q] [qt] i w = Some (Continue, w') \<and>
          length (sent w') = nat (Count b) \<and>
          dials w' = ceil_div (nat (Count b)) (nat (QperConn b))"
proof (induction fuel arbitrary: i w)
  case 0
  then show ?case by simp
next
  case (Suc fuel)
  show ?case
  proof (cases "i < Count b")
    case False
    with Suc.prems d have "i = Count b" by simp
    with Suc.prems d show ?thesis by simp
  next
    case True
    from calm have c: "\<not> ctx_err (env (tick w))" "\<not> Float64 (env (tick w)) > Probability b"
      "\<not> (Rate b > 0 \<and> limit_err (env (tick w)))"
      "\<not> (RateLimitWorker b > 0 \<and> workerLimit_err (env (tick w)))"
      "dial_result (env (tick w)) = None" "\<not> isl (exchange_result (env (tick w)))"
      by simp_all
    have "\<exists>w'. questions_loop b env i [q] [qt] w = (Continue, w') \<and>
       co w' \<and> tick w' = Suc (tick w) \<and> length (sent w') = Suc (length (sent w)) \<and>
       dials w' = (if co w \<and> \<not> (QperConn b > 0 \<and> i mod QperConn b = 0)
                   then dials w else Suc (dials w))"
      by (rule single_round [where b = b and env = env and w = w]) (fact plain c opt)+
    then obtain w1 where
      ql: "questions_loop b env i [q] [qt] w = (Continue, w1)" and co1: "co w1"
      and len1: "length (sent w1) = Suc (length (sent w))"
      and dials1: "dials w1 = (if co w \<and> \<not> (QperConn b > 0 \<and> i mod QperConn b = 0)
                 then dials w else Suc (dials w))"
      by blast
    have nk: "0 < nat (QperConn b)" using k by simp
    have "nat (i mod QperConn b) = nat i mod nat (QperConn b)"
      using Suc.prems(1) k by (simp add: nat_mod_distrib)
    moreover have "0 \<le> i mod QperConn b"
      using k by simp
    ultimately have modeq: "(i mod QperConn b = 0) = (nat i mod nat (QperConn b) = 0)"
      by linarith
    have nat1: "nat (i + 1) = Suc (nat i)"
      using Suc.prems(1) by simp
    have d1: "dials w1 = ceil_div (nat (i + 1)) (nat (QperConn b))"
    proof (cases "0 < i")
      case True
      with Suc.prems(4) have "co w" by simp
      with dials1 k modeq Suc.prems(5) show ?thesis
        by (simp add: nat1 ceil_div_Suc [OF nk])
    next
      case False
      with Suc.prems(1) have i0: "i = 0" by simp
      with Suc.prems(4) have "\<not> co w" by simp
      with dials1 Suc.prems(5) i0 show ?thesis
        by (simp add: ceil_div_Suc [OF nk])
    qed
    have "\<exists>w'. worker_loop fuel b env [q] [qt] (i + 1) w1 = Some (Continue, w') \<and>
          length (sent w') = nat (Count b) \<and>
          dials w' = ceil_div (nat (Count b)) (nat (QperConn b))"
    proof (rule Suc.IH)
      show "0 \<le> i + 1" using Suc.prems(1) by simp
      show "i + 1 \<le> Count b" using True by simp
      show "nat (Count b - (i + 1)) < fuel" using True Suc.prems(3) by simp
      show "co w1 = (0 < i + 1)" using co1 Suc.prems(1) by simp
      show "dials w1 = ceil_div (nat (i + 1)) (nat (QperConn b))" by (rule d1)
      show "length (sent w1) = nat (i + 1)" using len1 Suc.prems(6) nat1 by simp
    qed
    with True ql show ?thesis by simp
  qed
qed

lemma rotation_single_query:
  assumes "\<not> useDoH b" "\<not> useQuic b" "QperConn b > 0" "Duration b = 0" "EdnsOpt b = []"
    and "0 \<le> Count b"
    and "\<forall>n. \<not> ctx_err (env n) \<and> \<not> Float64 (env n) > Probability b \<and>
        \<not> (Rate b > 0 \<and> limit_err (env n)) \<and>
        \<not> (RateLimitWorker b > 0 \<and> workerLimit_err (env n)) \<and>
        dial_result (env n) = None \<and> \<not> isl (exchange_result (env n))"
  shows "\<exists>w'. worker_loop (Suc (nat (Count b))) b env [q] [qt] 0 new_worker
                = Some (Continue, w') \<and>
          length (sent w') = nat (Count b) \<and>
          dials w' = ceil_div (length (sent w')) (nat (QperConn b))"
proof -
  have "\<exists>w'. worker_loop (Suc (nat (Count b))) b env [q] [qt] 0 new_worker
                = Some (Continue, w') \<and>
          length (sent w') = nat (Count b) \<and>
          dials w' = ceil_div (nat (Count b)) (nat (QperConn b))"
    using assms(3)
    by (intro rotation_rounds [OF assms(1-5) assms(7)])
       (simp_all add: assms(6) new_worker_def ceil_div_def)
  then show ?thesis by auto
qed

section \<open>The termination bound\<close>

text \<open>
  Claim C3. With \<open>Count = 0\<close> and \<open>Duration = 0\<close>, and the other rules passing (a
  server is given, the URL of a DoH server parses, \<open>Edns0\<close> is 0 or within 512 to
  4096, \<open>EdnsOpt\<close> is empty or well-formed), \<open>prepare\<close> succeeds and sets
  \<open>Count\<close> to 1. With \<open>Count > 0\<close> and \<open>Duration > 0\<close>, \<open>prepare\<close> returns an
  error, and so does \<open>Run\<close>, before any worker starts.
\<close>

theorem prepare_termination_bound:
  "(Count b = 0 \<and> Duration b = 0 \<and> Server b \<noteq> [] \<and>
    (fst (isHTTPUrl (Server b)) \<longrightarrow> url_Parse (Server b) \<noteq> None) \<and>
    (Edns0 b = 0 \<or> (512 \<le> Edns0 b \<and> Edns0 b \<le> 4096)) \<and>
    (EdnsOpt b = [] \<or> ednsopt_wellformed (EdnsOpt b))
      \<longrightarrow> (\<exists>b'. prepare url_Parse b = Inr b' \<and> Count b' = 1 \<and> Duration b' = 0)) \<and>
   (Count b > 0 \<and> Duration b > 0
      \<longrightarrow> (\<exists>e. prepare url_Parse b = Inl e) \<and>
          (\<exists>e. Run fuel url_Parse Get Fqdn StringToType envs b = Inl e))"
proof (intro conjI impI)
  assume a: "Count b = 0 \<and> Duration b = 0 \<and> Server b \<noteq> [] \<and>
    (fst (isHTTPUrl (Server b)) \<longrightarrow> url_Parse (Server b) \<noteq> None) \<and>
    (Edns0 b = 0 \<or> (512 \<le> Edns0 b \<and> Edns0 b \<le> 4096)) \<and>
    (EdnsOpt b = [] \<or> ednsopt_wellformed (EdnsOpt b))"
  then have range: "\<not> (Edns0 b \<noteq> 0 \<and> (Edns0 b < 512 \<or> Edns0 b > 4096))"
    by auto
  show "\<exists>b'. prepare url_Parse b = Inr b' \<and> Count b' = 1 \<and> Duration b' = 0"
  proof (cases "fst (isHTTPUrl (Server b))")
    case True
    with a obtain u where "url_Parse (Server b) = Some u" by auto
    with a True range show ?thesis
      by (simp add: prepare_def prepare_server_Server addPortIfMissing_Server
            prepare_bounds_cases prepare_ednsopt_cases)
  next
    case False
    with a range show ?thesis
      by (simp add: prepare_def prepare_server_Server addPortIfMissing_Server
            prepare_bounds_cases prepare_ednsopt_cases)
  qed
next
  assume a: "Count b > 0 \<and> Duration b > 0"
  then show "\<exists>e. prepare url_Parse b = Inl e"
    by (simp add: prepare_def prepare_server_Server addPortIfMissing_Server
          prepare_bounds_cases split: option.splits)
  then show "\<exists>e. Run fuel url_Parse Get Fqdn StringToType envs b = Inl e"
    by (auto simp: Run_def)
qed

theorem prepare_termination_bound_witness:
  "(\<exists>b'. prepare no_url plain_config = Inr b' \<and> Count b' = 1 \<and> Duration b' = 0) \<and>
   (\<exists>e. prepare no_url both_bounds_config = Inl e) \<and>
   (\<exists>e. Run 1 no_url no_Get to_fqdn type_code calm_envs both_bounds_config = Inl e)"
proof -
  have p: "Count plain_config = 0 \<and> Duration plain_config = 0 \<and> Server plain_config \<noteq> [] \<and>
    (fst (isHTTPUrl (Server plain_config)) \<longrightarrow> no_url (Server plain_config) \<noteq> None) \<and>
    (Edns0 plain_config = 0 \<or> (512 \<le> Edns0 plain_config \<and> Edns0 plain_config \<le> 4096)) \<and>
    (EdnsOpt plain_config = [] \<or> ednsopt_wellformed (EdnsOpt plain_config))"
    by (simp add: plain_config_def isHTTPUrl_def HasPrefix_def ednsopt_example)
  have q: "Count both_bounds_config > 0 \<and> Duration both_bounds_config > 0"
    by (simp add: both_bounds_config_def plain_config_def)
  show ?thesis
    using prepare_termination_bound [of plain_config no_url]
      prepare_termination_bound [of both_bounds_config no_url 1 no_Get to_fqdn type_code calm_envs]
      p q
    by blast
qed

section \<open>The check of the EDNS option\<close>

text \<open>
  Claim C4, amended. For a non-empty \<open>EdnsOpt\<close>: an option that is not well-formed (it
  does not split on \<open>:\<close> into exactly two parts, or the left part is not an unsigned
  16-bit decimal number, or the right part is not a hexadecimal string) makes
  \<open>prepare\<close> fail in every configuration; and in a configuration that \<open>prepare\<close>
  accepts once the option is taken out, \<open>prepare\<close> fails exactly when the option is not
  well-formed.
\<close>

theorem prepare_ednsopt_check:
  "EdnsOpt b \<noteq> [] \<Longrightarrow>
     (\<not> ednsopt_wellformed (EdnsOpt b) \<longrightarrow> isl (prepare url_Parse b)) \<and>
     (\<not> isl (prepare url_Parse (b\<lparr>EdnsOpt := []\<rparr>)) \<longrightarrow>
        (isl (prepare url_Parse b) \<longleftrightarrow> \<not> ednsopt_wellformed (EdnsOpt b)))"
proof (intro conjI impI)
  assume ne: "EdnsOpt b \<noteq> []" and bad: "\<not> ednsopt_wellformed (EdnsOpt b)"
  show "isl (prepare url_Parse b)"
  proof (cases "prepare url_Parse b")
    case (Inl e)
    then show ?thesis by simp
  next
    case (Inr b')
    from prepare_Inr_ednsopt [OF Inr] ne bad show ?thesis by simp
  qed
next
  assume ne: "EdnsOpt b \<noteq> []" and ok: "\<not> isl (prepare url_Parse (b\<lparr>EdnsOpt := []\<rparr>))"
  then obtain b0 where b0: "prepare url_Parse (b\<lparr>EdnsOpt := []\<rparr>) = Inr b0"
    by (cases "prepare url_Parse (b\<lparr>EdnsOpt := []\<rparr>)") auto
  have "prepare url_Parse b = prepare_ednsopt (b0\<lparr>EdnsOpt := EdnsOpt b\<rparr>)"
    by (subst prepare_pass_ednsopt) (simp add: b0)
  then show "isl (prepare url_Parse b) \<longleftrightarrow> \<not> ednsopt_wellformed (EdnsOpt b)"
    using ne by (simp add: prepare_ednsopt_cases)
qed

theorem prepare_ednsopt_check_witness:
  "isl (prepare no_url bad_ednsopt_config) \<and> \<not> isl (prepare no_url plain_config)"
proof -
  have ne: "EdnsOpt bad_ednsopt_config \<noteq> []" "EdnsOpt plain_config \<noteq> []"
    by (simp_all add: bad_ednsopt_config_def plain_config_def)
  have bad: "\<not> ednsopt_wellformed (EdnsOpt bad_ednsopt_config)"
    by (simp add: bad_ednsopt_config_def plain_config_def ednsopt_wellformed_def)
  have good: "ednsopt_wellformed (EdnsOpt plain_config)"
    by (simp add: plain_config_def ednsopt_example)
  have rest: "\<not> isl (prepare no_url (plain_config\<lparr>EdnsOpt := []\<rparr>))"
    by (simp add: plain_config_def prepare_def prepare_server_Server addPortIfMissing_Server
          prepare_bounds_cases prepare_ednsopt_cases isHTTPUrl_def HasPrefix_def)
  show ?thesis
    using prepare_ednsopt_check [OF ne(1), of no_url]
      prepare_ednsopt_check [OF ne(2), of no_url] bad good rest
    by blast
qed

text \<open>
  Without that condition the equivalence fails: a configuration with a well-formed
  option and no server is rejected.
\<close>

theorem prepare_ednsopt_counterexample:
  "EdnsOpt no_server_config \<noteq> [] \<and> ednsopt_wellformed (EdnsOpt no_server_config) \<and>
   prepare no_url no_server_config = Inl ErrServerEmpty"
  by (simp add: no_server_config_def plain_config_def prepare_def ednsopt_wellformed_def
        is_uint16_decimal_def is_hex_string_def is_decimal_digit_def is_hex_digit_def
        less_eq_char_def)

section \<open>Port defaulting\<close>




section \<open>The EDNS option after prepare\<close>

text \<open>
  Claim C10. When \<open>prepare\<close> has accepted a configuration with a non-empty
  \<open>EdnsOpt\<close>, the option splits into exactly two parts, the left part parses as a
  number up to 65535 and the right part decodes without error; so \<open>addEdnsOpt\<close>
  does not panic on any message, the option it appends (the last of the OPT record)
  carries that number, unchanged by the conversion to 16 bits, and those bytes, and the
  query builder returns a message for every question.
\<close>

theorem addEdnsOpt_after_prepare:
  assumes "prepare url_Parse b = Inr b'" and "EdnsOpt b \<noteq> []"
  shows "\<exists>c h code.
     Split (EdnsOpt b') CHR '':'' = [c, h] \<and>
     ParseUint10 c 16 = Inr code \<and> code \<le> 65535 \<and>
     snd (DecodeString h) = None \<and>
     (\<forall>m. \<exists>m' opt.
        addEdnsOpt m (EdnsOpt b') = Inr m' \<and> the_opt m' = Some opt \<and>
        Option opt = Option (found_or_default m) @
                       [\<lparr>Code = of_nat code, Data = fst (DecodeString h)\<rparr>] \<and>
        unat (Code (last (Option opt))) = code) \<and>
     (\<forall>q qt r. \<exists>m. build_msg b' q qt r = Inr m)"
proof -
  from prepare_Inr_ednsopt [OF assms(1)] assms(2)
  have same: "EdnsOpt b' = EdnsOpt b" and wf: "ednsopt_wellformed (EdnsOpt b')"
    by auto
  from wf obtain c h where
    sp: "Split (EdnsOpt b') CHR '':'' = [c, h]" and dec: "is_uint16_decimal c"
    and hex: "is_hex_string h"
    by (auto simp: ednsopt_wellformed_def split: list.splits)
  let ?code = "decimal_value 0 c"
  have pu: "ParseUint10 c 16 = Inr ?code"
    using dec by (rule ParseUint10_value)
  have le: "?code \<le> 65535"
    using dec by (simp add: is_uint16_decimal_def)
  have ds: "snd (DecodeString h) = None"
    using hex by (simp add: DecodeString_ok_iff)
  have two: "length (Split (EdnsOpt b') CHR '':'') \<ge> 2"
    by (simp add: sp)
  have un: "unat (of_nat ?code :: 16 word) = ?code"
    using le by (simp add: unat_of_nat)
  have add: "\<exists>m' opt.
        addEdnsOpt m (EdnsOpt b') = Inr m' \<and> the_opt m' = Some opt \<and>
        Option opt = Option (found_or_default m) @
                       [\<lparr>Code = of_nat ?code, Data = fst (DecodeString h)\<rparr>] \<and>
        unat (Code (last (Option opt))) = ?code" for m
    using addEdnsOpt_two_parts [OF two, of m] un by (auto simp: sp pu)
  have bm: "\<exists>m. build_msg b' q qt r = Inr m" for q qt r
    using build_msg_total [of b' q qt r] two by simp
  show ?thesis
    using sp pu le ds add bm by blast
qed

theorem addEdnsOpt_after_prepare_witness:
  "\<exists>b' m' opt. prepare no_url plain_config = Inr b' \<and>
     addEdnsOpt bare_msg (EdnsOpt b') = Inr m' \<and>
     the_opt m' = Some opt \<and> unat (Code (last (Option opt))) = 65001 \<and>
     Data (last (Option opt)) = [0xDE, 0xAD, 0xBE, 0xEF]"
proof -
  obtain b' where p: "prepare no_url plain_config = Inr b'"
    using prepare_plain_config by blast
  have ne: "EdnsOpt plain_config \<noteq> []"
    by (simp add: plain_config_def)
  have eo: "EdnsOpt b' = ''65001:deadbeef''"
    using p by (simp add: prepare_plain_config) (auto simp: plain_config_def)
  from addEdnsOpt_after_prepare [OF p ne] obtain c h code where
    sp: "Split (EdnsOpt b') CHR '':'' = [c, h]" and
    pu: "ParseUint10 c 16 = Inr code" and
    add: "\<forall>m. \<exists>m' opt.
        addEdnsOpt m (EdnsOpt b') = Inr m' \<and> the_opt m' = Some opt \<and>
        Option opt = Option (found_or_default m) @
                       [\<lparr>Code = of_nat code, Data = fst (DecodeString h)\<rparr>] \<and>
        unat (Code (last (Option opt))) = code"
    by blast
  from sp eo have ch: "c = ''65001''" "h = ''deadbeef''" by simp_all
  with pu have code: "code = 65001" by (simp add: ParseUint10_def)
  have data: "fst (DecodeString h) = [0xDE, 0xAD, 0xBE, 0xEF]"
    by (simp add: ch fromHexChar_def)
  from add obtain m' opt where
    "addEdnsOpt bare_msg (EdnsOpt b')
       = Inr m'" "the_opt m' = Some opt"
    "Option opt = Option (found_or_default
         bare_msg) @
                       [\<lparr>Code = of_nat code, Data = fst (DecodeString h)\<rparr>]"
    "unat (Code (last (Option opt))) = code"
    by blast
  with p code data show ?thesis
    by auto
qed

section \<open>The EDNS option of a request and the default buffer size\<close>

text \<open>
  Claim C6. A request built with \<open>EdnsOpt = "65001:deadbeef"\<close> has an OPT record
  whose only option has the code 65001 and the bytes de ad be ef (its UDP size is
  \<open>Edns0\<close> when that is set and 1232 otherwise). When a message has no OPT record,
  the one that \<open>addEdnsOpt\<close> creates and the one that the DNSSEC branch creates have
  the UDP size 1232.
\<close>

theorem edns_option_and_default_size:
  "(EdnsOpt b = ''65001:deadbeef'' \<longrightarrow>
      (\<exists>m opt. build_msg b q qt r = Inr m \<and> the_opt m = Some opt \<and>
         Option opt = [\<lparr>Code = 65001, Data = [0xDE, 0xAD, 0xBE, 0xEF]\<rparr>] \<and>
         UDPSize opt = (if Edns0 b > 0 then Edns0 b else 1232))) \<and>
   (IsEdns0 m = None \<and> length (Split s CHR '':'') \<ge> 2 \<longrightarrow>
      (\<exists>m' opt. addEdnsOpt m s = Inr m' \<and> the_opt m' = Some opt \<and> UDPSize opt = 1232)) \<and>
   (IsEdns0 m = None \<longrightarrow>
      (\<exists>m' opt. setDNSSEC m = Inr m' \<and> the_opt m' = Some opt \<and> UDPSize opt = 1232 \<and> Do opt))"
proof (intro conjI impI)
  assume e: "EdnsOpt b = ''65001:deadbeef''"
  then have sp: "Split (EdnsOpt b) CHR '':'' = [''65001'', ''deadbeef'']" by simp
  have "EdnsOpt b \<noteq> []" "length (Split (EdnsOpt b) CHR '':'') \<ge> 2"
    by (simp_all add: e)
  from build_msg_opt [OF this, of q qt r] show
    "\<exists>m opt. build_msg b q qt r = Inr m \<and> the_opt m = Some opt \<and>
         Option opt = [\<lparr>Code = 65001, Data = [0xDE, 0xAD, 0xBE, 0xEF]\<rparr>] \<and>
         UDPSize opt = (if Edns0 b > 0 then Edns0 b else 1232)"
    by (auto simp: sp ParseUint10_def fromHexChar_def defaultEdns0BufferSize_def)
next
  assume a: "IsEdns0 m = None \<and> length (Split s CHR '':'') \<ge> 2"
  then have "found_or_default m = \<lparr>UDPSize = 1232, Do = False, Option = []\<rparr>"
    by (simp add: found_or_default_def the_opt_def defaultEdns0BufferSize_def)
  with a addEdnsOpt_two_parts [of s m] show
    "\<exists>m' opt. addEdnsOpt m s = Inr m' \<and> the_opt m' = Some opt \<and> UDPSize opt = 1232"
    by auto
next
  assume a: "IsEdns0 m = None"
  then have "found_or_default m = \<lparr>UDPSize = 1232, Do = False, Option = []\<rparr>"
    by (simp add: found_or_default_def the_opt_def defaultEdns0BufferSize_def)
  with setDNSSEC_ok [of m] show
    "\<exists>m' opt. setDNSSEC m = Inr m' \<and> the_opt m' = Some opt \<and> UDPSize opt = 1232 \<and> Do opt"
    by auto
qed

theorem edns_option_and_default_size_witness:
  "(\<exists>m opt. build_msg plain_config ''example.com.'' 1 0 = Inr m \<and> the_opt m = Some opt \<and>
      Option opt = [\<lparr>Code = 65001, Data = [0xDE, 0xAD, 0xBE, 0xEF]\<rparr>] \<and>
      UDPSize opt = 1232) \<and>
   (\<exists>m' opt. addEdnsOpt bare_msg ''1:ab'' = Inr m' \<and> the_opt m' = Some opt \<and>
      UDPSize opt = 1232) \<and>
   (\<exists>m' opt. setDNSSEC bare_msg = Inr m' \<and> the_opt m' = Some opt \<and> UDPSize opt = 1232 \<and>
      Do opt)"
proof -
  have e: "EdnsOpt plain_config = ''65001:deadbeef''" and z: "\<not> Edns0 plain_config > 0"
    by (simp_all add: plain_config_def)
  have n: "IsEdns0 bare_msg = None"
    by (simp add: bare_msg_def IsEdns0_def)
  have two: "length (Split ''1:ab'' CHR '':'') \<ge> 2"
    by simp
  show ?thesis
    using edns_option_and_default_size
      [of plain_config "''example.com.''" 1 0 bare_msg "''1:ab''"] e z n two
    by simp
qed

section \<open>Transaction ids\<close>

text \<open>
  Claim C5. The query builder gives a message the id 0 when \<open>useQuic\<close> is set, which
  \<open>prepare\<close> does exactly for a server that begins with \<open>quic://\<close>, and otherwise the
  low 16 bits of the 32-bit draw from the worker's generator. A pass of the worker sends
  at most one message, with that id; in DoQ mode every message a worker has sent has the
  id 0.
\<close>

theorem transaction_id:
  "(build_msg b q qt r = Inr m \<longrightarrow> MsgId m = (if useQuic b then 0 else ucast r)) \<and>
   (prepare url_Parse b0 = Inr b \<longrightarrow> useQuic b = HasPrefix (Server b0) ''quic://'') \<and>
   (iteration b env i q qt w = (f, w') \<longrightarrow>
      sent w' = sent w \<or>
      (\<exists>m'. sent w' = sent w @ [m'] \<and>
            MsgId m' = (if useQuic b then 0 else ucast (Uint32 (env (tick w)))))) \<and>
   (useQuic b \<and> worker_loop fuel b env questions qTypes i w = Some (f, w') \<and>
    (\<forall>m' \<in> set (sent w). MsgId m' = 0)
      \<longrightarrow> (\<forall>m' \<in> set (sent w'). MsgId m' = 0))"
proof (intro conjI impI)
  show "build_msg b q qt r = Inr m \<Longrightarrow> MsgId m = (if useQuic b then 0 else ucast r)"
    by (rule build_msg_MsgId)
  show "prepare url_Parse b0 = Inr b \<Longrightarrow> useQuic b = HasPrefix (Server b0) ''quic://''"
    by (rule prepare_useQuic)
  show "iteration b env i q qt w = (f, w') \<Longrightarrow>
      sent w' = sent w \<or>
      (\<exists>m'. sent w' = sent w @ [m'] \<and>
            MsgId m' = (if useQuic b then 0 else ucast (Uint32 (env (tick w)))))"
    using iteration_cases [of b env i q qt w f w'] build_msg_MsgId [of b q qt]
    by blast
next
  assume a: "useQuic b \<and> worker_loop fuel b env questions qTypes i w = Some (f, w') \<and>
    (\<forall>m' \<in> set (sent w). MsgId m' = 0)"
  have step: "(\<forall>m' \<in> set (sent w2). MsgId m' = 0)"
    if "\<forall>m' \<in> set (sent w1). MsgId m' = 0" and "iteration b env i1 q1 qt1 w1 = (f1, w2)"
    for i1 q1 qt1 w1 f1 w2
    using iteration_cases [OF that(2)] build_msg_MsgId [of b q1 qt1] that(1) a
    by auto
  show "\<forall>m' \<in> set (sent w'). MsgId m' = 0"
    using worker_loop_keeps [of "\<lambda>w. \<forall>m' \<in> set (sent w). MsgId m' = 0"
        b env w fuel questions qTypes i f w'] step a
    by blast
qed

theorem transaction_id_witness:
  "(\<exists>m. build_msg quic_config ''a.'' 1 77 = Inr m \<and> MsgId m = 0) \<and>
   (\<exists>m. build_msg rotation_config ''a.'' 1 0x12345 = Inr m \<and> MsgId m = 0x2345) \<and>
   (\<exists>b. prepare no_url doq_config = Inr b \<and> useQuic b) \<and>
   (\<exists>f w'. worker_loop 2 quic_config calm_env [''a.''] [1] 0 new_worker = Some (f, w') \<and>
      list_all (\<lambda>m. MsgId m = 0) (sent w'))"
proof -
  have e: "EdnsOpt quic_config = []" "EdnsOpt rotation_config = []"
    by (simp_all add: quic_config_def rotation_config_def)
  have u: "useQuic quic_config" "\<not> useQuic rotation_config"
    by (simp_all add: quic_config_def rotation_config_def plain_config_def)
  obtain m1 where m1: "build_msg quic_config ''a.'' 1 77 = Inr m1"
    using build_msg_total [of quic_config "''a.''" 1 77] e by auto
  have id1: "MsgId m1 = 0"
    using transaction_id [of quic_config "''a.''" 1 77 m1] m1 u by simp
  obtain m2 where m2: "build_msg rotation_config ''a.'' 1 0x12345 = Inr m2"
    using build_msg_total [of rotation_config "''a.''" 1 "0x12345"] e by auto
  have id2: "MsgId m2 = 0x2345"
    using transaction_id [of rotation_config "''a.''" 1 "0x12345" m2] m2 u by simp
  obtain b where b: "prepare no_url doq_config = Inr b"
    using prepare_doq_config by blast
  have q: "useQuic b"
    using transaction_id [of b _ _ _ _ no_url doq_config] b
    by (simp add: doq_config_def plain_config_def HasPrefix_def)
  have "Duration quic_config = 0" "nat (Count quic_config - 0) < 2"
    by (simp_all add: quic_config_def rotation_config_def plain_config_def)
  from worker_loop_count_ends [OF this] obtain f w' where
    r: "worker_loop 2 quic_config calm_env [''a.''] [1] 0 new_worker = Some (f, w')"
    by fastforce
  have "\<forall>m \<in> set (sent new_worker). MsgId m = 0"
    by (simp add: new_worker_def)
  with r u have "\<forall>m \<in> set (sent w'). MsgId m = 0"
    using transaction_id
      [where b = quic_config and env = calm_env and i = 0 and w = new_worker and f = f
         and w' = w' and fuel = 2 and questions = "[''a.'']" and qTypes = "[1]"]
    by blast
  then have "list_all (\<lambda>m. MsgId m = 0) (sent w')"
    by (simp add: list_all_iff)
  with m1 id1 m2 id2 b q r show ?thesis by blast
qed

section \<open>Probability sampling\<close>

text \<open>
  Claim C2, amended. In a pass that finds the context alive, the draw \<open>u\<close> decides:
  with \<open>u > Probability\<close> the pass is skipped (nothing is sent or recorded, the loop
  goes on), and otherwise it is not: when the loop goes on after it, one query has been
  sent and \<open>Total\<close> has grown by one. So with \<open>Probability < 0\<close> and draws that
  are not negative a worker never issues a query: whenever it ends it has sent nothing
  and its \<open>Total\<close> is 0, and with a count and no duration it does end. With
  \<open>Probability \<ge> 1\<close> and a draw below 1 no pass is skipped.
\<close>

theorem probability_sampling:
  "(\<not> ctx_err (env (tick w)) \<and> Float64 (env (tick w)) > Probability b
      \<longrightarrow> iteration b env i q qt w = (Continue, w\<lparr>tick := Suc (tick w)\<rparr>)) \<and>
   (\<not> ctx_err (env (tick w)) \<and> \<not> Float64 (env (tick w)) > Probability b \<and>
    iteration b env i q qt w = (Continue, w')
      \<longrightarrow> length (sent w') = Suc (length (sent w)) \<and> Total (ctr w') = Total (ctr w) + 1) \<and>
   (Probability b < 0 \<and> (\<forall>n. 0 \<le> Float64 (env n))
      \<longrightarrow> (\<forall>fuel f w1. worker_loop fuel b env questions qTypes 0 new_worker = Some (f, w1)
              \<longrightarrow> sent w1 = [] \<and> Total (ctr w1) = 0) \<and>
          (Duration b = 0 \<longrightarrow>
             (\<exists>f w1. worker_loop (Suc (nat (Count b))) b env questions qTypes 0 new_worker
                       = Some (f, w1)))) \<and>
   (1 \<le> Probability b \<and> Float64 (env (tick w)) < 1 \<and> \<not> ctx_err (env (tick w)) \<and>
    iteration b env i q qt w = (Continue, w')
      \<longrightarrow> length (sent w') = Suc (length (sent w)))"
proof (intro conjI impI allI)
  show "\<not> ctx_err (env (tick w)) \<and> Float64 (env (tick w)) > Probability b \<Longrightarrow>
     iteration b env i q qt w = (Continue, w\<lparr>tick := Suc (tick w)\<rparr>)"
    by (simp add: iteration_skipped)
next
  assume a: "\<not> ctx_err (env (tick w)) \<and> \<not> Float64 (env (tick w)) > Probability b \<and>
    iteration b env i q qt w = (Continue, w')"
  then obtain m res where
    "sent w' = sent w @ [m]" "ctr w' = record_result (\<not> useQuic b) m res (ctr w)"
    using iteration_issued [of env w b i q qt w'] by blast
  then show "length (sent w') = Suc (length (sent w))" "Total (ctr w') = Total (ctr w) + 1"
    by (simp_all add: record_result_Total)
next
  fix fuel f w1
  assume a: "Probability b < 0 \<and> (\<forall>n. 0 \<le> Float64 (env n))"
    and r: "worker_loop fuel b env questions qTypes 0 new_worker = Some (f, w1)"
  have "sent w1 = sent new_worker \<and> ctr w1 = ctr new_worker"
    using worker_loop_keeps
      [of "\<lambda>w. sent w = sent new_worker \<and> ctr w = ctr new_worker" b env new_worker
          fuel questions qTypes 0 f w1]
      iteration_all_skipped [of b env] a r
    by (metis (no_types, lifting))
  then show "sent w1 = []" "Total (ctr w1) = 0"
    by (simp_all add: new_worker_def no_counters_def)
next
  assume "Probability b < 0 \<and> (\<forall>n. 0 \<le> Float64 (env n))" and d: "Duration b = 0"
  have "nat (Count b - 0) < Suc (nat (Count b))" by simp
  from worker_loop_count_ends [OF d this] show
    "\<exists>f w1. worker_loop (Suc (nat (Count b))) b env questions qTypes 0 new_worker = Some (f, w1)"
    by fastforce
next
  assume a: "1 \<le> Probability b \<and> Float64 (env (tick w)) < 1 \<and> \<not> ctx_err (env (tick w)) \<and>
    iteration b env i q qt w = (Continue, w')"
  then have "\<not> Float64 (env (tick w)) > Probability b" by simp
  with a obtain m res where "sent w' = sent w @ [m]"
    using iteration_issued [of env w b i q qt w'] by blast
  then show "length (sent w') = Suc (length (sent w))" by simp
qed

theorem probability_sampling_witness:
  "(\<exists>f w1. worker_loop 2 negative_probability_config calm_env [''a.''] [1] 0 new_worker
             = Some (f, w1) \<and> sent w1 = [] \<and> Total (ctr w1) = 0) \<and>
   iteration negative_probability_config calm_env 0 ''a.'' 1 new_worker
     = (Continue, new_worker\<lparr>tick := Suc (tick new_worker)\<rparr>) \<and>
   (\<exists>w'. iteration rotation_config calm_env 0 ''a.'' 1 new_worker = (Continue, w') \<and>
      length (sent w') = 1)"
proof -
  have n: "Probability negative_probability_config < 0 \<and> (\<forall>n. 0 \<le> Float64 (calm_env n))"
    "Duration negative_probability_config = 0"
    "Suc (nat (Count negative_probability_config)) = 2"
    by (simp_all add: negative_probability_config_def zero_probability_config_def
          plain_config_def calm_env_def)
  note neg = probability_sampling
    [where b = negative_probability_config and env = calm_env and w = new_worker
       and questions = "[''a.'']" and qTypes = "[1]" and i = 0 and q = "''a.''" and qt = 1]
  from neg n have run: "\<exists>f w1. worker_loop 2 negative_probability_config calm_env [''a.''] [1] 0
      new_worker = Some (f, w1) \<and> sent w1 = [] \<and> Total (ctr w1) = 0"
    by (metis (no_types, lifting))
  have s: "\<not> ctx_err (calm_env (tick new_worker)) \<and>
           Float64 (calm_env (tick new_worker)) > Probability negative_probability_config"
    by (simp add: negative_probability_config_def zero_probability_config_def
          plain_config_def calm_env_def)
  from neg s have skip: "iteration negative_probability_config calm_env 0 ''a.'' 1 new_worker
     = (Continue, new_worker\<lparr>tick := Suc (tick new_worker)\<rparr>)"
    by blast
  obtain w' where it: "iteration rotation_config calm_env 0 ''a.'' 1 new_worker = (Continue, w')"
    by (simp add: rotation_config_def plain_config_def calm_env_def new_worker_def
          iteration_def query_def plain_query_def build_msg_def Let_def)
  have p: "1 \<le> Probability rotation_config \<and> Float64 (calm_env (tick new_worker)) < 1 \<and>
           \<not> ctx_err (calm_env (tick new_worker))"
    by (simp add: rotation_config_def plain_config_def calm_env_def)
  have "length (sent w') = Suc (length (sent new_worker))"
    using probability_sampling
      [where b = rotation_config and env = calm_env and w = new_worker and i = 0
         and q = "''a.''" and qt = 1 and w' = w'] p it
    by blast
  then have "length (sent w') = 1"
    by (simp add: new_worker_def)
  with run skip it show ?thesis by blast
qed

text \<open>
  With \<open>Probability = 0\<close> the draw 0, which the generator can return, is not above
  the probability: one query is issued (after one dial) and \<open>Total\<close> becomes 1.
\<close>

theorem probability_sampling_counterexample:
  "Probability zero_probability_config \<le> 0 \<and>
   0 \<le> Float64 (calm_env 0) \<and> Float64 (calm_env 0) < 1 \<and>
   dial_report (worker_loop 2 zero_probability_config calm_env [''a.''] [1] 0 new_worker)
     = Some (1, 1) \<and>
   recorded_total (worker_loop 2 zero_probability_config calm_env [''a.''] [1] 0 new_worker)
     = Some 1"
  by (simp add: zero_probability_run recorded_total_def dial_report_def)
     (simp add: zero_probability_config_def calm_env_def)

section \<open>Connection rotation\<close>

text \<open>
  Claim C1 at one input: \<open>QperConn = 2\<close>, one repetition of two questions of one type,
  no errors, nothing skipped. Both queries belong to the round \<open>i = 0\<close>; the second
  finds a connection and \<open>i % QperConn = 0\<close>, so the worker closes it and dials
  again: two dials for two queries, where the ceiling of 2 / 2 is 1.
\<close>

theorem rotation_dials_every_query_of_round:
  "QperConn rotation_config = 2 \<and>
   dial_report (worker_loop 2 rotation_config calm_env [''a.'', ''b.''] [1] 0 new_worker)
     = Some (2, 2) \<and>
   ceil_div 2 2 = 1"
  by (simp add: rotation_run dial_report_def ceil_div_def)
     (simp add: rotation_config_def)

section \<open>The reducer's counters\<close>

lemma merge_counters_sums:
  "Total (merge_counters stats t) = Total t + sum_list (map Total (worker_counters stats)) \<and>
   IOError (merge_counters stats t) = IOError t + sum_list (map IOError (worker_counters stats)) \<and>
   Success (merge_counters stats t) = Success t + sum_list (map Success (worker_counters stats)) \<and>
   Negative (merge_counters stats t) = Negative t + sum_list (map Negative (worker_counters stats)) \<and>
   Error (merge_counters stats t) = Error t + sum_list (map Error (worker_counters stats)) \<and>
   IDmismatch (merge_counters stats t) = IDmismatch t + sum_list (map IDmismatch (worker_counters stats)) \<and>
   Truncated (merge_counters stats t) = Truncated t + sum_list (map Truncated (worker_counters stats))"
proof (induction stats arbitrary: t)
  case Nil
  show ?case by simp
next
  case (Cons s stats)
  show ?case
  proof (cases "Counters s")
    case None
    then show ?thesis using Cons.IH [of t] by simp
  next
    case (Some c)
    then show ?thesis using Cons.IH [of "add_counters t c"]
      by (simp add: add_counters_def add.assoc)
  qed
qed

lemma balanced_sum:
  "\<forall>c \<in> set cs. Total c = Success c + Negative c + Error c + IOError c \<Longrightarrow>
   sum_list (map Total cs) =
     sum_list (map Success cs) + sum_list (map Negative cs) + sum_list (map Error cs)
       + sum_list (map IOError cs)"
  by (induction cs) (simp_all add: algebra_simps)

text \<open>
  Claim C8. Each field of the merged counters is the sum of that field over the
  recorders that have counters (in 64-bit arithmetic); hence, if every such recorder
  satisfies \<open>Total = Success + Negative + Error + IOError\<close>, so do the merged counters.
\<close>

theorem reducer_counter_sum:
  "Total (totalCounters stats) = sum_list (map Total (worker_counters stats)) \<and>
   IOError (totalCounters stats) = sum_list (map IOError (worker_counters stats)) \<and>
   Success (totalCounters stats) = sum_list (map Success (worker_counters stats)) \<and>
   Negative (totalCounters stats) = sum_list (map Negative (worker_counters stats)) \<and>
   Error (totalCounters stats) = sum_list (map Error (worker_counters stats)) \<and>
   IDmismatch (totalCounters stats) = sum_list (map IDmismatch (worker_counters stats)) \<and>
   Truncated (totalCounters stats) = sum_list (map Truncated (worker_counters stats)) \<and>
   ((\<forall>c \<in> set (worker_counters stats).
        Total c = Success c + Negative c + Error c + IOError c) \<longrightarrow>
    Total (totalCounters stats) =
      Success (totalCounters stats) + Negative (totalCounters stats)
        + Error (totalCounters stats) + IOError (totalCounters stats))"
proof -
  have fields:
    "Total (totalCounters stats) = sum_list (map Total (worker_counters stats))"
    "IOError (totalCounters stats) = sum_list (map IOError (worker_counters stats))"
    "Success (totalCounters stats) = sum_list (map Success (worker_counters stats))"
    "Negative (totalCounters stats) = sum_list (map Negative (worker_counters stats))"
    "Error (totalCounters stats) = sum_list (map Error (worker_counters stats))"
    "IDmismatch (totalCounters stats) = sum_list (map IDmismatch (worker_counters stats))"
    "Truncated (totalCounters stats) = sum_list (map Truncated (worker_counters stats))"
    using merge_counters_sums [of stats no_counters]
    by (simp_all add: totalCounters_def no_counters_def)
  show ?thesis
    using fields balanced_sum [of "worker_counters stats"] by simp
qed

theorem reducer_counter_sum_witness:
  "Total (totalCounters two_recorders) = 8 \<and>
   Total (totalCounters two_recorders) =
     Success (totalCounters two_recorders) + Negative (totalCounters two_recorders)
       + Error (totalCounters two_recorders) + IOError (totalCounters two_recorders)"
proof -
  have h: "\<forall>c \<in> set (worker_counters two_recorders).
      Total c = Success c + Negative c + Error c + IOError c"
    by (simp add: two_recorders_def)
  have t: "sum_list (map Total (worker_counters two_recorders)) = 8"
    by (simp add: two_recorders_def)
  note r = reducer_counter_sum [of two_recorders]
  from r t have t8: "Total (totalCounters two_recorders) = 8"
    by simp
  from r h have eq: "Total (totalCounters two_recorders) =
     Success (totalCounters two_recorders) + Negative (totalCounters two_recorders)
       + Error (totalCounters two_recorders) + IOError (totalCounters two_recorders)"
    by blast
  show ?thesis
    using t8 eq by blast
qed

section \<open>Error strings\<close>

lemma As_DNSError_first:
  "\<forall>x \<in> set pre. \<not> is_DNSError x \<Longrightarrow> As_DNSError (pre @ DNSError e n # post) = Some (e, n)"
proof (induction pre)
  case Nil
  show ?case by simp
next
  case (Cons x pre)
  then show ?case by (cases x) simp_all
qed

lemma As_DNSError_none:
  "\<forall>x \<in> set ns. \<not> is_DNSError x \<Longrightarrow> As_DNSError ns = None"
proof (induction ns)
  case Nil
  show ?case by simp
next
  case (Cons x ns)
  then show ?case by (cases x) simp_all
qed

lemma As_OpError_first:
  "\<forall>x \<in> set pre. \<not> is_OpError x \<Longrightarrow>
   As_OpError (pre @ OpError op net addr # post) = Some (op, net, addr)"
proof (induction pre)
  case Nil
  show ?case by simp
next
  case (Cons x pre)
  then show ?case by (cases x) simp_all
qed

lemma As_OpError_none:
  "\<forall>x \<in> set ns. \<not> is_OpError x \<Longrightarrow> As_OpError ns = None"
proof (induction ns)
  case Nil
  show ?case by simp
next
  case (Cons x ns)
  then show ?case by (cases x) simp_all
qed

text \<open>
  Claim C9. The error string of a recorded error: when the error is or wraps a DNS
  resolve error, the message \<open>Err\<close> and the name \<open>Name\<close> of the outermost such error,
  separated by a space; otherwise, when it is or wraps a net op error, \<open>Op\<close>,
  \<open>Net\<close> and, where \<open>Addr\<close> is not nil, the address of the outermost such error,
  separated by spaces; otherwise what \<open>Error()\<close> returns.
\<close>

theorem errString_normalization:
  "(chain (Err err) = pre @ DNSError e n # post \<and> (\<forall>x \<in> set pre. \<not> is_DNSError x)
      \<longrightarrow> errString err = e @ '' '' @ n) \<and>
   ((\<forall>x \<in> set (chain (Err err)). \<not> is_DNSError x) \<and>
    chain (Err err) = pre @ OpError op net addr # post \<and> (\<forall>x \<in> set pre. \<not> is_OpError x)
      \<longrightarrow> errString err =
            (case addr of None \<Rightarrow> op @ '' '' @ net | Some a \<Rightarrow> op @ '' '' @ net @ '' '' @ a)) \<and>
   ((\<forall>x \<in> set (chain (Err err)). \<not> is_DNSError x \<and> \<not> is_OpError x)
      \<longrightarrow> errString err = Error_msg (Err err))"
proof (intro conjI impI)
  assume "chain (Err err) = pre @ DNSError e n # post \<and> (\<forall>x \<in> set pre. \<not> is_DNSError x)"
  then show "errString err = e @ '' '' @ n"
    by (simp add: errString_def As_DNSError_first)
next
  assume a: "(\<forall>x \<in> set (chain (Err err)). \<not> is_DNSError x) \<and>
    chain (Err err) = pre @ OpError op net addr # post \<and> (\<forall>x \<in> set pre. \<not> is_OpError x)"
  then have "As_DNSError (chain (Err err)) = None"
    using As_DNSError_none by blast
  moreover have "As_OpError (chain (Err err)) = Some (op, net, addr)"
    using a As_OpError_first by simp
  ultimately show "errString err =
            (case addr of None \<Rightarrow> op @ '' '' @ net | Some a \<Rightarrow> op @ '' '' @ net @ '' '' @ a)"
    by (simp add: errString_def split: option.splits)
next
  assume a: "\<forall>x \<in> set (chain (Err err)). \<not> is_DNSError x \<and> \<not> is_OpError x"
  then have "As_DNSError (chain (Err err)) = None" "As_OpError (chain (Err err)) = None"
    using As_DNSError_none As_OpError_none by blast+
  then show "errString err = Error_msg (Err err)"
    by (simp add: errString_def)
qed

theorem errString_normalization_witness:
  "errString lookup_failure = ''no such host ns.example'' \<and>
   errString read_failure = ''read udp 127.0.0.1:53'' \<and>
   errString plain_failure = ''context deadline exceeded''"
proof -
  have "errString lookup_failure = ''no such host ns.example''"
    using errString_normalization
      [of lookup_failure "[OpError ''dial'' ''udp'' None]" "''no such host''" "''ns.example''" "[]"]
    by (simp add: lookup_failure_def)
  moreover have "errString read_failure = ''read udp 127.0.0.1:53''"
    using errString_normalization
      [of read_failure "[OtherError]" _ _ "[OtherError]" "''read''" "''udp''" "Some ''127.0.0.1:53''"]
    by (simp add: read_failure_def)
  moreover have "errString plain_failure = ''context deadline exceeded''"
    using errString_normalization [of plain_failure]
    by (simp add: plain_failure_def)
  ultimately show ?thesis by simp
qed


end
